theory Spec2Isabelle
  imports Main "HOL-Library.Sublist"
begin

section \<open>The HackerOne to Discord relay of \<open>src/main.js\<close>\<close>

text \<open>
  The program is one class, \<open>HackerOneDiscordBot\<close>. Its constructor prepares two files
  (\<open>log.txt\<close>, the ledger of report identifiers already relayed, and \<open>channel.txt\<close>, the
  destination channel), and on the client's \<open>ready\<close> event it runs
  \<open>checkHacktivityReports\<close> once and then on a timer. Every effect of the program is made
  explicit here: the files are a map from paths to contents, and every call to
  \<open>channel.send\<close>, \<open>fs.appendFile\<close>, \<open>setTimeout\<close>, \<open>console.log\<close> and
  \<open>console.error\<close> is an event of a trace, in program order. The login and the
  \<open>.setup\<close> command, which writes the channel file, are outside the model: a
  destination is configured when \<open>channel.txt\<close> exists.
\<close>

subsection \<open>Values of the feed\<close>

text \<open>
  A field of the feed's JSON answer that the program reads without checking it is a string,
  \<open>null\<close>, or missing (\<open>undefined\<close>). Strings are byte lists; the identifiers, currency
  codes and severity names the program compares are ASCII. A \<open>node\<close> is an item of the
  answer that has its \<open>report\<close>. Its \<open>reporter\<close> or its \<open>team\<close> may be \<open>null\<close>
  (\<open>lacks_reporter_or_team\<close>); the fields read from them mean nothing then. An answer
  that has no items, or an item without a report, is told by the field \<open>malformed\<close> of
  the world, below. The awarded amount is only handed to the number formatter.
\<close>

datatype jsval = Undefined | Null | Str string

text \<open>JavaScript's \<open>ToString\<close>, used for template literals, property keys and options.\<close>

fun to_string :: "jsval \<Rightarrow> string" where
  "to_string Undefined = ''undefined''"
| "to_string Null = ''null''"
| "to_string (Str s) = s"

type_synonym amount = int

record node =
  databaseId :: string                \<comment> \<open>\<open>node.report.databaseId\<close>\<close>
  title :: string                     \<comment> \<open>\<open>node.report.title\<close>\<close>
  url :: string                       \<comment> \<open>\<open>node.report.url\<close>\<close>
  hacktivity_summary :: jsval         \<comment> \<open>\<open>node.report.report_generated_content?.hacktivity_summary\<close>\<close>
  username :: string                  \<comment> \<open>\<open>node.reporter.username\<close>\<close>
  team_name :: string                 \<comment> \<open>\<open>node.team.name\<close>\<close>
  team_handle :: string               \<comment> \<open>\<open>node.team.handle\<close>\<close>
  currency :: jsval                   \<comment> \<open>\<open>node.team.currency\<close>\<close>
  severity_rating :: jsval            \<comment> \<open>\<open>node.severity_rating\<close>\<close>
  total_awarded_amount :: amount      \<comment> \<open>\<open>node.total_awarded_amount\<close>\<close>
  lacks_reporter_or_team :: bool      \<comment> \<open>\<open>node.reporter\<close> or \<open>node.team\<close> is \<open>null\<close>\<close>

subsection \<open>Errors\<close>

datatype error =
    Fetch_failed            \<comment> \<open>\<open>axios.post\<close> rejected\<close>
  | Type_error              \<comment> \<open>TypeError: a property of \<open>undefined\<close> or \<open>null\<close> is read\<close>
  | ENOENT                  \<comment> \<open>a file that is read or accessed does not exist\<close>
  | Invalid_path            \<comment> \<open>\<open>ERR_INVALID_ARG_TYPE\<close>: a file operation on the path \<open>undefined\<close>\<close>
  | Append_failed           \<comment> \<open>\<open>fs.appendFile\<close> rejected\<close>
  | Send_failed             \<comment> \<open>\<open>channel.send\<close> rejected\<close>
  | Currency_required       \<comment> \<open>\<open>Intl.NumberFormat\<close>: TypeError, currency style without a currency\<close>
  | Invalid_currency        \<comment> \<open>\<open>Intl.NumberFormat\<close>: RangeError, the code is not well formed\<close>
  | Color_convert           \<comment> \<open>\<open>setColor\<close>: the colour is not an integer\<close>
  | Color_range             \<comment> \<open>\<open>setColor\<close>: the colour is outside \<open>0 .. 0xFFFFFF\<close>\<close>
  | Field_invalid           \<comment> \<open>\<open>addFields\<close>: a field value is not a string\<close>

subsection \<open>Object literals as lookup tables\<close>

text \<open>
  \<open>icons[severity]\<close> and \<open>colors[severity]\<close> are property reads on object literals. A
  property read first looks at the object's own properties and then at its prototype,
  which for an object literal is \<open>Object.prototype\<close>. The names below are the members of
  \<open>Object.prototype\<close>; each of them is a function or an object, hence truthy.
\<close>

definition object_prototype_keys :: "string list" where
  "object_prototype_keys =
     [''constructor'', ''__defineGetter__'', ''__defineSetter__'', ''hasOwnProperty'',
      ''__lookupGetter__'', ''__lookupSetter__'', ''isPrototypeOf'',
      ''propertyIsEnumerable'', ''toString'', ''valueOf'', ''__proto__'',
      ''toLocaleString'']"

text \<open>
  The result of \<open>table[key] || fallback\<close>: a value of the table (or the fallback), or the
  member of \<open>Object.prototype\<close> of that name.
\<close>

datatype 'a looked_up = Val 'a | Builtin string

definition lookup_or :: "(string \<times> 'a) list \<Rightarrow> ('a \<Rightarrow> bool) \<Rightarrow> jsval \<Rightarrow> 'a \<Rightarrow> 'a looked_up" where
  "lookup_or table truthy key fallback =
     (let k = to_string key in
      case map_of table k of
        Some v \<Rightarrow> if truthy v then Val v else Val fallback
      | None \<Rightarrow> if k \<in> set object_prototype_keys then Builtin k else Val fallback)"

subsection \<open>The notification formatter\<close>

definition icons :: "(string \<times> string) list" where
  "icons =
     [(''None'', '':white_circle: Info''),
      (''Low'', '':green_circle: Low''),
      (''Medium'', '':yellow_circle: Medium''),
      (''High'', '':orange_circle: High''),
      (''Critical'', '':red_circle: Critical'')]"

definition getSeverityIcon :: "jsval \<Rightarrow> string looked_up" where
  "getSeverityIcon severity = lookup_or icons (\<lambda>s. s \<noteq> []) severity ''-''"

definition colors :: "(string \<times> int) list" where
  "colors =
     [(''Critical'', 0xFF0000),
      (''High'', 0xFF6600),
      (''Medium'', 0xFFFF00),
      (''Low'', 0x00FF00),
      (''None'', 0x808080)]"

definition getSeverityColor :: "jsval \<Rightarrow> int looked_up" where
  "getSeverityColor severity = lookup_or colors (\<lambda>c. c \<noteq> 0) severity 0x000000"

text \<open>
  \<open>Intl.NumberFormat\<close> belongs to the platform (ECMA-402), not to this repository. Its
  constructor, called with \<open>style: 'currency'\<close>, throws a TypeError when the currency
  option is \<open>undefined\<close>, and a RangeError when the option's string is not a well-formed
  currency code, which is three ASCII letters in either case. Every well-formed code is
  accepted, whether or not a currency of that name exists. How the amount is rendered is
  locale data; the rendering is the parameter \<open>render\<close>, applied to the upper-cased code.
\<close>

definition ascii_letter :: "char \<Rightarrow> bool" where
  "ascii_letter c =
     (let k = (of_char c :: nat) in (65 \<le> k \<and> k \<le> 90) \<or> (97 \<le> k \<and> k \<le> 122))"

definition well_formed_currency_code :: "string \<Rightarrow> bool" where
  "well_formed_currency_code s = (length s = 3 \<and> list_all ascii_letter s)"

definition ascii_upper :: "char \<Rightarrow> char" where
  "ascii_upper c =
     (let k = (of_char c :: nat) in if 97 \<le> k \<and> k \<le> 122 then char_of (k - 32) else c)"

type_synonym renderer = "string \<Rightarrow> amount \<Rightarrow> string"

definition number_format :: "renderer \<Rightarrow> jsval \<Rightarrow> amount \<Rightarrow> error + string" where
  "number_format render cur amt =
     (case cur of
        Undefined \<Rightarrow> Inl Currency_required
      | _ \<Rightarrow> if well_formed_currency_code (to_string cur)
             then Inr (render (map ascii_upper (to_string cur)) amt)
             else Inl Invalid_currency)"

text \<open>The money-bag glyph U+1F4B0 that \<open>formatBounty\<close> puts first, as UTF-8.\<close>

definition money_bag :: string where
  "money_bag = [CHR 0xF0, CHR 0x9F, CHR 0x92, CHR 0xB0]"

definition formatBounty :: "renderer \<Rightarrow> amount \<Rightarrow> jsval \<Rightarrow> error + string" where
  "formatBounty render amt cur =
     (case number_format render cur amt of
        Inl e \<Rightarrow> Inl e
      | Inr text \<Rightarrow> Inr (money_bag @ '' '' @ text))"

text \<open>
  The embed, as the fields the builder has been given. \<open>setColor\<close> is discord.js's: it
  passes a falsy colour on and otherwise converts it with \<open>resolveColor\<close>, which throws
  unless the colour is an integer from 0 to \<open>0xFFFFFF\<close>; \<open>addFields\<close> throws on a value
  that is not a string. The description is put together before the colour is set, and
  its template reads \<open>node.reporter.username\<close>, \<open>node.team.name\<close> and
  \<open>node.team.handle\<close>: a \<open>null\<close> reporter or team throws a TypeError there. The
  builder's limits on the length of the title, the description and a field value, and its
  check of the URL, are not modelled: the feed's texts are taken to satisfy them.
\<close>

record field =
  field_name :: string
  field_value :: string
  field_inline :: bool

record embed =
  embed_title :: string
  embed_url :: string
  embed_description :: string
  embed_color :: int
  embed_fields :: "field list"

definition setColor :: "int looked_up \<Rightarrow> error + int" where
  "setColor color =
     (case color of
        Builtin k \<Rightarrow> Inl Color_convert
      | Val c \<Rightarrow> if c = 0 then Inr 0
                 else if c < 0 \<or> 0xFFFFFF < c then Inl Color_range
                 else Inr c)"

definition newline :: string where
  "newline = [CHR 0x0A]"

definition summary_text :: "jsval \<Rightarrow> string" where
  "summary_text v = (case v of Str s \<Rightarrow> if s = [] then ''No summary'' else s
                             | _ \<Rightarrow> ''No summary'')"

definition description :: "node \<Rightarrow> string" where
  "description n =
     '':pencil: Disclosed by [@'' @ username n @ ''](https://hackerone.com/'' @ username n @ '') ''
     @ ''to [**'' @ team_name n @ ''**](https://hackerone.com/'' @ team_handle n @ '')''
     @ newline @ newline
     @ summary_text (hacktivity_summary n)"

definition createReportEmbed :: "renderer \<Rightarrow> node \<Rightarrow> error + embed" where
  "createReportEmbed render n =
     (if lacks_reporter_or_team n then Inl Type_error
      else
      case setColor (getSeverityColor (severity_rating n)) of
        Inl e \<Rightarrow> Inl e
      | Inr color \<Rightarrow>
         (let icon = getSeverityIcon (severity_rating n) in
          case formatBounty render (total_awarded_amount n) (currency n) of
            Inl e \<Rightarrow> Inl e
          | Inr bounty \<Rightarrow>
             (case icon of
                Builtin k \<Rightarrow> Inl Field_invalid
              | Val label \<Rightarrow>
                 Inr \<lparr>embed_title = title n, embed_url = url n,
                      embed_description = description n, embed_color = color,
                      embed_fields =
                        [\<lparr>field_name = ''Severity'', field_value = label, field_inline = True\<rparr>,
                         \<lparr>field_name = ''Bounty'', field_value = bounty, field_inline = True\<rparr>]\<rparr>)))"

subsection \<open>Files, the trace and the outside world\<close>

text \<open>
  The files of the working directory, by name. The functions below are those of
  \<open>fs/promises\<close>; each is an \<open>async\<close> function, so a path that is \<open>undefined\<close> makes
  the returned promise reject instead of throwing at the call.
\<close>

type_synonym files = "string \<rightharpoonup> string"

definition access :: "string option \<Rightarrow> files \<Rightarrow> error + unit" where
  "access path fs =
     (case path of
        None \<Rightarrow> Inl Invalid_path
      | Some p \<Rightarrow> (case fs p of None \<Rightarrow> Inl ENOENT | Some _ \<Rightarrow> Inr ()))"

definition readFile :: "string option \<Rightarrow> files \<Rightarrow> error + string" where
  "readFile path fs =
     (case path of
        None \<Rightarrow> Inl Invalid_path
      | Some p \<Rightarrow> (case fs p of None \<Rightarrow> Inl ENOENT | Some text \<Rightarrow> Inr text))"

definition writeFile :: "string option \<Rightarrow> string \<Rightarrow> files \<Rightarrow> error + files" where
  "writeFile path text fs =
     (case path of
        None \<Rightarrow> Inl Invalid_path
      | Some p \<Rightarrow> Inr (fs(p \<mapsto> text)))"

text \<open>\<open>fs.appendFile\<close> creates the file when it does not exist.\<close>

definition appendFile :: "string option \<Rightarrow> string \<Rightarrow> files \<Rightarrow> error + files" where
  "appendFile path text fs =
     (case path of
        None \<Rightarrow> Inl Invalid_path
      | Some p \<Rightarrow> Inr (fs(p \<mapsto> (case fs p of None \<Rightarrow> [] | Some old \<Rightarrow> old) @ text)))"

text \<open>
  What the program does to the outside, in order. \<open>Sent\<close> carries the channel and the
  embed given to \<open>channel.send\<close>, and beside them the identifier of the report the embed
  was built from, so that a send can be traced to its item. \<open>Appended\<close> is a completed
  \<open>fs.appendFile\<close> on the ledger with the text it added, \<open>Paused\<close> the
  \<open>setTimeout\<close> after an item.
\<close>

datatype event =
    Console_log string
  | Console_error string "error option"
  | Sent string string embed
  | Appended string
  | Paused nat

record state =
  files :: files
  trace :: "event list"

definition emit :: "event \<Rightarrow> state \<Rightarrow> state" where
  "emit e s = s\<lparr>trace := trace s @ [e]\<rparr>"

text \<open>
  What the outside world does in one cycle. \<open>fetch\<close> is the outcome of \<open>axios.post\<close>:
  the error it rejects with, or the items of the answer's \<open>data.data.search.nodes\<close>.
  When the answer is not of the shape the program expects, \<open>malformed\<close> holds and the
  items are those before the place where reading the answer throws: none when the answer
  has no \<open>data.data.search.nodes\<close> (the \<open>for\<close> statement throws), and otherwise the
  items before the first one that has no \<open>report\<close> (\<open>node.report.databaseId\<close> throws
  when the loop comes to it). What follows that place is never read. \<open>send_ok\<close> and
  \<open>append_ok\<close> tell, for the item at each position of the batch, whether
  \<open>channel.send\<close> and \<open>fs.appendFile\<close> succeed when the program reaches them.
\<close>

record world =
  fetch :: "error + node list"
  malformed :: bool
  send_ok :: "nat \<Rightarrow> bool"
  append_ok :: "nat \<Rightarrow> bool"

record bot =
  logFile :: "string option"
  channelFile :: "string option"

subsection \<open>The dispatch loop\<close>

text \<open>\<open>String.prototype.includes\<close>: the argument occurs somewhere in the string.\<close>

fun includes_str :: "string \<Rightarrow> string \<Rightarrow> bool" where
  "includes_str [] t = (t = [])"
| "includes_str (c # s) t = (prefix t (c # s) \<or> includes_str s t)"

text \<open>
  The \<open>for\<close> loop of \<open>checkHacktivityReports\<close> over the items, from the item at
  position \<open>i\<close> on. \<open>log\<close> is the ledger's text as read once before the loop. The
  result is the state reached and the exception that left the loop, if any.
\<close>

fun dispatch :: "renderer \<Rightarrow> world \<Rightarrow> bot \<Rightarrow> string \<Rightarrow> string \<Rightarrow> nat \<Rightarrow> node list \<Rightarrow> state
                 \<Rightarrow> state \<times> error option" where
  "dispatch render w this channel log i [] s = (s, None)"
| "dispatch render w this channel log i (n # ns) s =
     (let reportId = databaseId n in
      if includes_str log reportId
      then dispatch render w this channel log (Suc i) ns
             (emit (Console_log (reportId @ '' skipping...'')) s)
      else
        case createReportEmbed render n of
          Inl e \<Rightarrow> (s, Some e)
        | Inr built \<Rightarrow>
            if \<not> send_ok w i then (s, Some Send_failed)
            else
              let s1 = emit (Sent channel reportId built) s in
              if \<not> append_ok w i then (s1, Some Append_failed)
              else
                case appendFile (logFile this) (reportId @ newline) (files s1) of
                  Inl e \<Rightarrow> (s1, Some e)
                | Inr fs \<Rightarrow>
                    dispatch render w this channel log (Suc i) ns
                      (emit (Paused 5000)
                         (emit (Appended (reportId @ newline))
                            (s1\<lparr>files := fs\<rparr>))))"

text \<open>
  \<open>checkHacktivityReports\<close>: everything is inside one \<open>try\<close>, whose \<open>catch\<close> logs the
  error and returns. The request comes first, the read of the ledger second, and the
  answer is looked into only after that: a malformed answer throws once the items before
  the malformed place have been processed.
\<close>

definition checkHacktivityReports :: "renderer \<Rightarrow> bot \<Rightarrow> string \<Rightarrow> world \<Rightarrow> state \<Rightarrow> state" where
  "checkHacktivityReports render this channel w s =
     (case fetch w of
        Inl e \<Rightarrow> emit (Console_error ''Detailed error:'' (Some e)) s
      | Inr nodes \<Rightarrow>
         (case readFile (logFile this) (files s) of
            Inl e \<Rightarrow> emit (Console_error ''Detailed error:'' (Some e)) s
          | Inr log \<Rightarrow>
             (case dispatch render w this channel log 0 nodes s of
                (s', Some e) \<Rightarrow> emit (Console_error ''Detailed error:'' (Some e)) s'
              | (s', None) \<Rightarrow>
                  if malformed w
                  then emit (Console_error ''Detailed error:'' (Some Type_error)) s'
                  else s')))"

text \<open>
  \<open>startHacktivityMonitoring\<close>. \<open>cache\<close> tells which channel identifiers the client
  knows. The timer is a list of worlds: the first is the world of the initial check, the
  others those of the timer's ticks so far, one cycle after the other.
\<close>

definition startHacktivityMonitoring ::
    "renderer \<Rightarrow> bot \<Rightarrow> (string \<Rightarrow> bool) \<Rightarrow> world list \<Rightarrow> state \<Rightarrow> state" where
  "startHacktivityMonitoring render this cache ticks s =
     (case readFile (channelFile this) (files s) of
        Inl e \<Rightarrow> emit (Console_error ''Monitoring setup error:'' (Some e)) s
      | Inr channelId \<Rightarrow>
          if \<not> cache channelId
          then emit (Console_error ''Monitoring channel not found'' None) s
          else fold (checkHacktivityReports render this channelId) ticks s)"

subsection \<open>Start-up\<close>

text \<open>
  \<open>initializeFiles\<close> is an \<open>async\<close> method that the constructor calls without awaiting
  it. The call runs the body up to its first \<open>await\<close>: it evaluates \<open>this.logFile\<close>
  and calls \<open>fs.access\<close> with that value. The rest of the body runs after the
  constructor has returned, and reads \<open>this.logFile\<close> and \<open>this.channelFile\<close> again
  then. \<open>initializeFiles_called\<close> is the first part: the path given to the first
  \<open>fs.access\<close>. \<open>initializeFiles_resumed\<close> is the rest; an exception that leaves it is an
  unhandled rejection. The rest is taken to have finished when the client reports
  \<open>ready\<close>, which needs the login's round trip.
\<close>

definition initializeFiles_called :: "bot \<Rightarrow> string option" where
  "initializeFiles_called this = logFile this"

definition initializeFiles_resumed :: "bot \<Rightarrow> string option \<Rightarrow> state \<Rightarrow> error + state" where
  "initializeFiles_resumed this accessed s =
     (case (case access accessed (files s) of
              Inr _ \<Rightarrow> Inr s
            | Inl _ \<Rightarrow>
               (case writeFile (logFile this) [] (files s) of
                  Inl e \<Rightarrow> Inl e
                | Inr fs \<Rightarrow> Inr (emit (Console_log ''Log file created'') (s\<lparr>files := fs\<rparr>)))) of
        Inl e \<Rightarrow> Inl e
      | Inr s1 \<Rightarrow>
         (case access (channelFile this) (files s1) of
            Inr _ \<Rightarrow> Inr s1
          | Inl _ \<Rightarrow>
             Inr (emit (Console_log
               ''Channel file not found. Please use .setup command to set monitoring channel'') s1)))"

text \<open>
  The constructor: \<open>this.initializeFiles()\<close> comes first, the two assignments of the
  paths after it. A new object has neither property, so both read as \<open>undefined\<close>
  (\<open>None\<close>) until they are assigned. The paths are relative to the working directory.
\<close>

definition constructor :: "state \<Rightarrow> bot \<times> (error + state)" where
  "constructor s =
     (let this0 = \<lparr>logFile = None, channelFile = None\<rparr>;
          accessed = initializeFiles_called this0;
          this1 = this0\<lparr>logFile := Some ''log.txt''\<rparr>;
          this2 = this1\<lparr>channelFile := Some ''channel.txt''\<rparr>
      in (this2, initializeFiles_resumed this2 accessed s))"

subsection \<open>Reading the ledger\<close>

text \<open>
  The ledger is text, one identifier and a line feed per entry. Its entries are its
  complete lines.
\<close>

fun split_lines :: "string \<Rightarrow> string \<Rightarrow> string list" where
  "split_lines cur [] = []"
| "split_lines cur (c # cs) =
     (if c = CHR 0x0A then cur # split_lines [] cs else split_lines (cur @ [c]) cs)"

definition ledger_entries :: "string \<Rightarrow> string list" where
  "ledger_entries log = split_lines [] log"

definition ledger :: "bot \<Rightarrow> state \<Rightarrow> string" where
  "ledger this s = (case readFile (logFile this) (files s) of Inl _ \<Rightarrow> [] | Inr text \<Rightarrow> text)"

subsection \<open>Reading the trace\<close>

text \<open>
  The events one cycle adds to the trace, the identifiers of the reports sent in a list of
  events, and the texts appended to the ledger in it, each in order.
\<close>

definition cycle_events :: "renderer \<Rightarrow> bot \<Rightarrow> string \<Rightarrow> world \<Rightarrow> state \<Rightarrow> event list" where
  "cycle_events render this channel w s =
     drop (length (trace s)) (trace (checkHacktivityReports render this channel w s))"

fun sent_ids :: "event list \<Rightarrow> string list" where
  "sent_ids [] = []"
| "sent_ids (Sent channel reportId built # evs) = reportId # sent_ids evs"
| "sent_ids (_ # evs) = sent_ids evs"

fun appended :: "event list \<Rightarrow> string list" where
  "appended [] = []"
| "appended (Appended text # evs) = text # appended evs"
| "appended (_ # evs) = appended evs"

text \<open>
  What the loop does to an item when nothing fails: it logs the skip of an item whose
  identifier the ledger text includes, and sends, records and pauses for any other.
\<close>

definition item_events :: "renderer \<Rightarrow> string \<Rightarrow> string \<Rightarrow> node \<Rightarrow> event list" where
  "item_events render channel log n =
     (if includes_str log (databaseId n)
      then [Console_log (databaseId n @ '' skipping...'')]
      else case createReportEmbed render n of
             Inl _ \<Rightarrow> []
           | Inr built \<Rightarrow>
               [Sent channel (databaseId n) built, Appended (databaseId n @ newline),
                Paused 5000])"

text \<open>
  The loop without the state: the events it adds and the exception that ends it. Lemma
  \<open>dispatch_loop_events\<close> below shows that \<open>dispatch\<close> adds exactly these events to the
  trace and the appended texts among them to the ledger.
\<close>

fun loop_events :: "renderer \<Rightarrow> world \<Rightarrow> string \<Rightarrow> string \<Rightarrow> nat \<Rightarrow> node list
                    \<Rightarrow> event list \<times> error option" where
  "loop_events render w channel log i [] = ([], None)"
| "loop_events render w channel log i (n # ns) =
     (if includes_str log (databaseId n)
      then (case loop_events render w channel log (Suc i) ns of
              (evs, err) \<Rightarrow> (Console_log (databaseId n @ '' skipping...'') # evs, err))
      else
        case createReportEmbed render n of
          Inl e \<Rightarrow> ([], Some e)
        | Inr built \<Rightarrow>
            if \<not> send_ok w i then ([], Some Send_failed)
            else if \<not> append_ok w i
            then ([Sent channel (databaseId n) built], Some Append_failed)
            else (case loop_events render w channel log (Suc i) ns of
                    (evs, err) \<Rightarrow>
                      (Sent channel (databaseId n) built # Appended (databaseId n @ newline)
                         # Paused 5000 # evs, err)))"

text \<open>
  How the cycle ends after the loop over the items: with the loop's exception, with the
  TypeError of a malformed answer, or normally; and what the \<open>catch\<close> of
  \<open>checkHacktivityReports\<close> prints for it.
\<close>

definition ending :: "world \<Rightarrow> error option \<Rightarrow> error option" where
  "ending w err =
     (case err of
        Some e \<Rightarrow> Some e
      | None \<Rightarrow> if malformed w then Some Type_error else None)"

definition error_log :: "error option \<Rightarrow> event list" where
  "error_log err =
     (case err of None \<Rightarrow> [] | Some e \<Rightarrow> [Console_error ''Detailed error:'' (Some e)])"

subsection \<open>Sample data\<close>

text \<open>
  Concrete inputs on which the theorems below are exercised: a renderer that prints the
  currency code alone, a report with a given identifier, worlds in which everything
  succeeds or one operation fails or the answer is malformed after some items, the bot as
  the constructor leaves it, and a working
  directory that holds the ledger with a given text (and, for \<open>configured\<close>, the
  channel file).
\<close>

definition plain_render :: renderer where
  "plain_render code amt = code"

definition report :: "string \<Rightarrow> node" where
  "report i =
     \<lparr>databaseId = i, title = ''Open redirect'', url = ''https://hackerone.com/reports/1'',
      hacktivity_summary = Null, username = ''alice'', team_name = ''Acme'',
      team_handle = ''acme'', currency = Str ''USD'', severity_rating = Str ''High'',
      total_awarded_amount = 500, lacks_reporter_or_team = False\<rparr>"

definition all_succeed :: "node list \<Rightarrow> world" where
  "all_succeed ns =
     \<lparr>fetch = Inr ns, malformed = False, send_ok = (\<lambda>i. True), append_ok = (\<lambda>i. True)\<rparr>"

definition send_fails_at :: "nat \<Rightarrow> node list \<Rightarrow> world" where
  "send_fails_at k ns =
     \<lparr>fetch = Inr ns, malformed = False, send_ok = (\<lambda>i. i \<noteq> k), append_ok = (\<lambda>i. True)\<rparr>"

definition append_fails_at :: "nat \<Rightarrow> node list \<Rightarrow> world" where
  "append_fails_at k ns =
     \<lparr>fetch = Inr ns, malformed = False, send_ok = (\<lambda>i. True), append_ok = (\<lambda>i. i \<noteq> k)\<rparr>"

definition feed_down :: world where
  "feed_down =
     \<lparr>fetch = Inl Fetch_failed, malformed = False, send_ok = (\<lambda>i. True),
      append_ok = (\<lambda>i. True)\<rparr>"

definition malformed_after :: "node list \<Rightarrow> world" where
  "malformed_after ns =
     \<lparr>fetch = Inr ns, malformed = True, send_ok = (\<lambda>i. True), append_ok = (\<lambda>i. True)\<rparr>"

definition running_bot :: bot where
  "running_bot = \<lparr>logFile = Some ''log.txt'', channelFile = Some ''channel.txt''\<rparr>"

definition disk :: "string \<Rightarrow> state" where
  "disk text = \<lparr>files = [''log.txt'' \<mapsto> text], trace = []\<rparr>"

definition configured :: "string \<Rightarrow> string \<Rightarrow> state" where
  "configured channelId text =
     \<lparr>files = [''log.txt'' \<mapsto> text, ''channel.txt'' \<mapsto> channelId], trace = []\<rparr>"

section \<open>Properties\<close>

text \<open>The definitions a concrete run unfolds.\<close>

lemmas formatter_defs =
  createReportEmbed_def setColor_def getSeverityColor_def getSeverityIcon_def lookup_or_def
  colors_def icons_def object_prototype_keys_def formatBounty_def number_format_def
  well_formed_currency_code_def ascii_letter_def

lemmas cycle_defs =
  cycle_events_def checkHacktivityReports_def readFile_def appendFile_def emit_def Let_def
  formatter_defs

lemmas sample_defs =
  all_succeed_def send_fails_at_def append_fails_at_def feed_down_def malformed_after_def
  running_bot_def
  disk_def configured_def report_def

subsection \<open>Substrings and ledger entries\<close>

lemma includes_str_iff: "includes_str s t \<longleftrightarrow> (\<exists>ps ss. s = ps @ t @ ss)"
proof (induction s)
  case Nil
  then show ?case by auto
next
  case (Cons c s)
  have "(\<exists>ps ss. c # s = ps @ t @ ss) \<longleftrightarrow> prefix t (c # s) \<or> (\<exists>ps ss. s = ps @ t @ ss)"
  proof
    assume "\<exists>ps ss. c # s = ps @ t @ ss"
    then obtain ps ss where eq: "c # s = ps @ t @ ss" by blast
    show "prefix t (c # s) \<or> (\<exists>ps ss. s = ps @ t @ ss)"
    proof (cases ps)
      case Nil
      with eq show ?thesis by (auto simp: prefix_def)
    next
      case (Cons p ps')
      with eq have "s = ps' @ t @ ss" by simp
      then show ?thesis by blast
    qed
  next
    assume "prefix t (c # s) \<or> (\<exists>ps ss. s = ps @ t @ ss)"
    then show "\<exists>ps ss. c # s = ps @ t @ ss"
    proof
      assume "prefix t (c # s)"
      then obtain ss where "c # s = t @ ss" by (auto simp: prefix_def)
      then have "c # s = [] @ t @ ss" by simp
      then show ?thesis by blast
    next
      assume "\<exists>ps ss. s = ps @ t @ ss"
      then obtain ps ss where "s = ps @ t @ ss" by blast
      then have "c # s = (c # ps) @ t @ ss" by simp
      then show ?thesis by blast
    qed
  qed
  with Cons show ?case by simp
qed

lemma split_lines_occurs:
  "x \<in> set (split_lines cur s) \<Longrightarrow> \<exists>ps ss. cur @ s = ps @ x @ ss"
proof (induction s arbitrary: cur)
  case Nil
  then show ?case by simp
next
  case (Cons c cs)
  show ?case
  proof (cases "c = CHR 0x0A")
    case True
    with Cons.prems have "x = cur \<or> x \<in> set (split_lines [] cs)" by simp
    then show ?thesis
    proof
      assume "x = cur"
      then have "cur @ c # cs = [] @ x @ (c # cs)" by simp
      then show ?thesis by blast
    next
      assume "x \<in> set (split_lines [] cs)"
      from Cons.IH [OF this] obtain ps ss where "[] @ cs = ps @ x @ ss" by blast
      then have "cur @ c # cs = (cur @ c # ps) @ x @ ss" by simp
      then show ?thesis by blast
    qed
  next
    case False
    with Cons.prems have "x \<in> set (split_lines (cur @ [c]) cs)" by simp
    from Cons.IH [OF this] show ?thesis by simp
  qed
qed

lemma entry_includes: "x \<in> set (ledger_entries log) \<Longrightarrow> includes_str log x"
  using split_lines_occurs [of x "[]" log] by (simp add: ledger_entries_def includes_str_iff)

lemma length_split_lines: "length (split_lines cur s) = length (filter (\<lambda>c. c = CHR 0x0A) s)"
  by (induction s arbitrary: cur) auto

lemma split_lines_entry:
  "CHR 0x0A \<notin> set x \<Longrightarrow> split_lines cur (x @ newline @ rest) = (cur @ x) # split_lines [] rest"
  by (induction x arbitrary: cur) (auto simp: newline_def)

lemma ledger_entries_records:
  "\<forall>x\<in>set ids. CHR 0x0A \<notin> set x \<Longrightarrow>
     ledger_entries (concat (map (\<lambda>x. x @ newline) ids)) = ids"
  unfolding ledger_entries_def
  by (induction ids) (simp_all add: split_lines_entry)

lemma length_entries_append:
  "length (ledger_entries (a @ b)) = length (ledger_entries a) + length (ledger_entries b)"
  by (simp add: ledger_entries_def length_split_lines)

lemma length_entries_records:
  "\<forall>t\<in>set ts. \<exists>x. t = x @ newline \<and> CHR 0x0A \<notin> set x \<Longrightarrow>
     length (ledger_entries (concat ts)) = length ts"
proof (induction ts)
  case Nil
  show ?case by (simp add: ledger_entries_def)
next
  case (Cons t ts)
  then obtain x where t: "t = x @ newline" and x: "CHR 0x0A \<notin> set x" by auto
  have "length (ledger_entries t) = 1"
    using x unfolding t ledger_entries_def length_split_lines
    by (auto simp add: newline_def filter_empty_conv)
  with Cons show ?case by (simp add: length_entries_append)
qed

subsection \<open>The loop's events\<close>

lemma sent_ids_append: "sent_ids (xs @ ys) = sent_ids xs @ sent_ids ys"
  by (induction xs rule: sent_ids.induct) simp_all

lemma appended_append: "appended (xs @ ys) = appended xs @ appended ys"
  by (induction xs rule: appended.induct) simp_all

lemma sent_ids_error_log: "sent_ids (error_log err) = []"
  by (simp add: error_log_def split: option.splits)

lemma appended_error_log: "appended (error_log err) = []"
  by (simp add: error_log_def split: option.splits)

lemma loop_events_sent_novel:
  "x \<in> set (sent_ids (fst (loop_events render w channel log i ns))) \<Longrightarrow>
     \<not> includes_str log x \<and> x \<in> databaseId ` set ns"
  by (induction ns arbitrary: i) (auto simp: split_def split: if_splits sum.splits)

lemma loop_events_appended_novel:
  "t \<in> set (appended (fst (loop_events render w channel log i ns))) \<Longrightarrow>
     \<exists>n \<in> set ns. t = databaseId n @ newline \<and> \<not> includes_str log (databaseId n)"
  by (induction ns arbitrary: i) (auto simp: split_def split: if_splits sum.splits)

lemma loop_events_counts:
  "length (sent_ids (fst (loop_events render w channel log i ns))) =
     length (appended (fst (loop_events render w channel log i ns)))
   \<or> (length (sent_ids (fst (loop_events render w channel log i ns))) =
        Suc (length (appended (fst (loop_events render w channel log i ns))))
      \<and> snd (loop_events render w channel log i ns) = Some Append_failed)"
  by (induction ns arbitrary: i) (auto simp: split_def split: if_splits sum.splits)

lemma loop_events_append:
  "loop_events render w channel log i (xs @ ys) =
     (case loop_events render w channel log i xs of
        (evs, None) \<Rightarrow>
          (case loop_events render w channel log (i + length xs) ys of
             (evs', err) \<Rightarrow> (evs @ evs', err))
      | (evs, Some e) \<Rightarrow> (evs, Some e))"
  by (induction xs arbitrary: i) (auto simp: split_def split: if_splits sum.splits option.splits)

lemma loop_events_smooth:
  assumes "\<forall>j<length ns. send_ok w (i + j) \<and> append_ok w (i + j)"
    and "\<forall>n\<in>set ns. includes_str log (databaseId n) \<or> (\<exists>b. createReportEmbed render n = Inr b)"
  shows "loop_events render w channel log i ns =
           (concat (map (item_events render channel log) ns), None)"
  using assms
proof (induction ns arbitrary: i)
  case Nil
  show ?case by simp
next
  case (Cons n ns)
  have here: "send_ok w i \<and> append_ok w i"
    using Cons.prems(1) by (metis add.right_neutral length_greater_0_conv list.distinct(1))
  have "\<forall>j<length ns. send_ok w (Suc i + j) \<and> append_ok w (Suc i + j)"
  proof (intro allI impI)
    fix j assume "j < length ns"
    then have "Suc j < length (n # ns)" by simp
    with Cons.prems(1) have "send_ok w (i + Suc j) \<and> append_ok w (i + Suc j)" by blast
    then show "send_ok w (Suc i + j) \<and> append_ok w (Suc i + j)" by simp
  qed
  moreover have "\<forall>m\<in>set ns. includes_str log (databaseId m) \<or> (\<exists>b. createReportEmbed render m = Inr b)"
    using Cons.prems(2) by simp
  ultimately have rest: "loop_events render w channel log (Suc i) ns =
           (concat (map (item_events render channel log) ns), None)"
    by (rule Cons.IH)
  have this_one: "includes_str log (databaseId n) \<or> (\<exists>b. createReportEmbed render n = Inr b)"
    using Cons.prems(2) by simp
  show ?case
  proof (cases "includes_str log (databaseId n)")
    case True
    then have "item_events render channel log n = [Console_log (databaseId n @ '' skipping...'')]"
      by (simp add: item_events_def)
    with True rest show ?thesis by simp
  next
    case False
    with this_one obtain b where b: "createReportEmbed render n = Inr b" by blast
    with False have "item_events render channel log n =
        [Sent channel (databaseId n) b, Appended (databaseId n @ newline), Paused 5000]"
      by (simp add: item_events_def)
    with False b here rest show ?thesis by simp
  qed
qed

lemma concat_appended_item_events:
  assumes "\<forall>n\<in>set ns. includes_str log (databaseId n) \<or> (\<exists>b. createReportEmbed render n = Inr b)"
  shows "appended (concat (map (item_events render channel log) ns)) =
           map (\<lambda>n. databaseId n @ newline) (filter (\<lambda>n. \<not> includes_str log (databaseId n)) ns)"
    and "sent_ids (concat (map (item_events render channel log) ns)) =
           map databaseId (filter (\<lambda>n. \<not> includes_str log (databaseId n)) ns)"
  using assms
  by (induction ns) (auto simp: item_events_def appended_append sent_ids_append)

subsection \<open>The loop and the state\<close>

lemma dispatch_loop_events:
  assumes "logFile this = Some p" and "files s p = Some old"
  shows "files (fst (dispatch render w this channel log i ns s)) p =
           Some (old @ concat (appended (fst (loop_events render w channel log i ns))))
         \<and> (\<forall>q. q \<noteq> p \<longrightarrow> files (fst (dispatch render w this channel log i ns s)) q = files s q)
         \<and> trace (fst (dispatch render w this channel log i ns s)) =
           trace s @ fst (loop_events render w channel log i ns)
         \<and> snd (dispatch render w this channel log i ns s) =
           snd (loop_events render w channel log i ns)"
  using assms(2)
proof (induction ns arbitrary: i s old)
  case Nil
  then show ?case by simp
next
  case (Cons n ns)
  show ?case
  proof (cases "includes_str log (databaseId n)")
    case True
    have f: "files (emit (Console_log (databaseId n @ '' skipping...'')) s) p = Some old"
      using Cons.prems by (simp add: emit_def)
    show ?thesis
      using True Cons.IH [OF f, of "Suc i"]
      by (simp add: emit_def split: prod.splits)
  next
    case False
    show ?thesis
    proof (cases "createReportEmbed render n")
      case (Inl e)
      with False Cons.prems show ?thesis by simp
    next
      case (Inr built)
      show ?thesis
      proof (cases "send_ok w i \<and> append_ok w i")
        case False
        with \<open>\<not> includes_str log (databaseId n)\<close> Inr Cons.prems show ?thesis
          by (auto simp add: emit_def)
      next
        case True
        let ?s2 = "emit (Paused 5000) (emit (Appended (databaseId n @ newline))
                    (emit (Sent channel (databaseId n) built) s
                       \<lparr>files := (files s)(p \<mapsto> old @ databaseId n @ newline)\<rparr>))"
        have f: "files ?s2 p = Some (old @ databaseId n @ newline)"
          by (simp add: emit_def)
        show ?thesis
          using True \<open>\<not> includes_str log (databaseId n)\<close> Inr Cons.prems assms(1)
            Cons.IH [OF f, of "Suc i"]
          by (simp add: emit_def appendFile_def Let_def split: prod.splits)
      qed
    qed
  qed
qed


lemma dispatch_trace_prefix:
  "dispatch render w this channel log i ns (s\<lparr>trace := tr @ trace s\<rparr>) =
     (case dispatch render w this channel log i ns s of
        (s', err) \<Rightarrow> (s'\<lparr>trace := tr @ trace s'\<rparr>, err))"
proof (induction ns arbitrary: i s)
  case Nil
  show ?case by simp
next
  case (Cons n ns)
  have e: "\<And>ev t. emit ev (t\<lparr>trace := tr @ trace t\<rparr>) = (emit ev t)\<lparr>trace := tr @ trace (emit ev t)\<rparr>"
    by (simp add: emit_def)
  have u: "\<And>t fs. (t\<lparr>trace := tr @ trace t\<rparr>)\<lparr>files := fs\<rparr> = (t\<lparr>files := fs\<rparr>)\<lparr>trace := tr @ trace (t\<lparr>files := fs\<rparr>)\<rparr>"
    by simp
  show ?case
    by (simp only: dispatch.simps Let_def e u Cons.IH state.simps)
       (simp split: sum.splits prod.splits)
qed


lemma check_trace_prefix:
  "checkHacktivityReports render this channel w (s\<lparr>trace := tr @ trace s\<rparr>) =
     (checkHacktivityReports render this channel w s)
       \<lparr>trace := tr @ trace (checkHacktivityReports render this channel w s)\<rparr>"
  by (simp add: checkHacktivityReports_def emit_def dispatch_trace_prefix
           split: sum.splits prod.splits option.splits)

lemma check_from_empty_trace:
  "checkHacktivityReports render this channel w s =
     (checkHacktivityReports render this channel w (s\<lparr>trace := []\<rparr>))
       \<lparr>trace := trace s @ trace (checkHacktivityReports render this channel w (s\<lparr>trace := []\<rparr>))\<rparr>"
  using check_trace_prefix [where s = "s\<lparr>trace := []\<rparr>" and tr = "trace s"]
  by simp

lemma trace_check:
  "trace (checkHacktivityReports render this channel w s) =
     trace s @ cycle_events render this channel w s"
proof -
  have "trace (checkHacktivityReports render this channel w s) =
        trace s @ trace (checkHacktivityReports render this channel w (s\<lparr>trace := []\<rparr>))"
    by (subst check_from_empty_trace) simp
  then show ?thesis by (simp add: cycle_events_def)
qed

lemma cycle_events_from_empty_trace:
  "cycle_events render this channel w s =
     trace (checkHacktivityReports render this channel w (s\<lparr>trace := []\<rparr>))"
proof -
  have "trace (checkHacktivityReports render this channel w s) =
        trace s @ trace (checkHacktivityReports render this channel w (s\<lparr>trace := []\<rparr>))"
    by (subst check_from_empty_trace) simp
  then show ?thesis by (simp add: cycle_events_def)
qed

lemma files_check_from_empty_trace:
  "files (checkHacktivityReports render this channel w s) =
     files (checkHacktivityReports render this channel w (s\<lparr>trace := []\<rparr>))"
  by (subst check_from_empty_trace) simp

lemma same_files_same_cycle:
  fixes s1 s2 :: state
  assumes "files s1 = files s2"
  shows "cycle_events render this channel w s1 = cycle_events render this channel w s2"
    and "files (checkHacktivityReports render this channel w s1) =
         files (checkHacktivityReports render this channel w s2)"
proof -
  have "s1\<lparr>trace := []\<rparr> = s2\<lparr>trace := []\<rparr>"
    using assms by (cases s1, cases s2) simp
  then show "cycle_events render this channel w s1 = cycle_events render this channel w s2"
    and "files (checkHacktivityReports render this channel w s1) =
         files (checkHacktivityReports render this channel w s2)"
    by (simp_all add: cycle_events_from_empty_trace files_check_from_empty_trace [where s = s1]
          files_check_from_empty_trace [where s = s2])
qed

lemma check_loop_events:
  assumes "fetch w = Inr nodes" and "logFile this = Some p" and "files s p = Some log"
  shows "cycle_events render this channel w s =
           fst (loop_events render w channel log 0 nodes)
           @ error_log (ending w (snd (loop_events render w channel log 0 nodes)))"
    and "files (checkHacktivityReports render this channel w s) p =
           Some (log @ concat (appended (fst (loop_events render w channel log 0 nodes))))"
    and "q \<noteq> p \<Longrightarrow> files (checkHacktivityReports render this channel w s) q = files s q"
proof -
  note d = dispatch_loop_events [OF assms(2,3), of render w channel log 0 nodes]
  obtain s' err where r: "dispatch render w this channel log 0 nodes s = (s', err)"
    by (cases "dispatch render w this channel log 0 nodes s")
  have c: "checkHacktivityReports render this channel w s =
            (case ending w err of
               None \<Rightarrow> s'
             | Some e \<Rightarrow> emit (Console_error ''Detailed error:'' (Some e)) s')"
    using assms r
    by (simp add: checkHacktivityReports_def readFile_def ending_def split: option.splits)
  from d r have t: "trace s' = trace s @ fst (loop_events render w channel log 0 nodes)"
    and e: "err = snd (loop_events render w channel log 0 nodes)"
    and f: "files s' p = Some (log @ concat (appended (fst (loop_events render w channel log 0 nodes))))"
    and g: "\<And>q. q \<noteq> p \<Longrightarrow> files s' q = files s q"
    by simp_all
  show "cycle_events render this channel w s =
           fst (loop_events render w channel log 0 nodes)
           @ error_log (ending w (snd (loop_events render w channel log 0 nodes)))"
    using c t e by (simp add: cycle_events_def error_log_def emit_def split: option.splits)
  show "files (checkHacktivityReports render this channel w s) p =
           Some (log @ concat (appended (fst (loop_events render w channel log 0 nodes))))"
    using c f by (simp add: emit_def split: option.splits)
  show "q \<noteq> p \<Longrightarrow> files (checkHacktivityReports render this channel w s) q = files s q"
    using c g by (simp add: emit_def split: option.splits)
qed

subsection \<open>Whole cycles\<close>

lemma readFile_Inr:
  "readFile path fs = Inr text \<Longrightarrow> \<exists>p. path = Some p \<and> fs p = Some text"
  by (auto simp: readFile_def split: option.splits)

lemma included_never_sent:
  assumes "includes_str log x" and "fetch w = Inr nodes"
    and "readFile (logFile this) (files s) = Inr log"
  shows "x \<notin> set (sent_ids (cycle_events render this channel w s))"
    and "x @ newline \<notin> set (appended (cycle_events render this channel w s))"
proof -
  from readFile_Inr [OF assms(3)] obtain p where p: "logFile this = Some p" "files s p = Some log"
    by blast
  note ev = check_loop_events(1) [OF assms(2) p, of render channel]
  show "x \<notin> set (sent_ids (cycle_events render this channel w s))"
    using assms(1) loop_events_sent_novel [of x render w channel log 0 nodes]
    by (auto simp: ev sent_ids_append sent_ids_error_log)
  show "x @ newline \<notin> set (appended (cycle_events render this channel w s))"
    using assms(1) loop_events_appended_novel [of "x @ newline" render w channel log 0 nodes]
    by (auto simp: ev appended_append appended_error_log)
qed

lemma reached_item_events:
  assumes "fetch w = Inr (pre @ n # post)"
    and "readFile (logFile this) (files s) = Inr log"
    and "snd (dispatch render w this channel log 0 pre s) = None"
  shows "cycle_events render this channel w s =
           fst (loop_events render w channel log 0 pre)
           @ fst (loop_events render w channel log (length pre) (n # post))
           @ error_log (ending w (snd (loop_events render w channel log (length pre) (n # post))))"
proof -
  from readFile_Inr [OF assms(2)] obtain p where p: "logFile this = Some p" "files s p = Some log"
    by blast
  have "snd (loop_events render w channel log 0 pre) = None"
    using dispatch_loop_events [OF p, of render w channel log 0 pre] assms(3) by simp
  then have "loop_events render w channel log 0 (pre @ n # post) =
      (fst (loop_events render w channel log 0 pre)
         @ fst (loop_events render w channel log (length pre) (n # post)),
       snd (loop_events render w channel log (length pre) (n # post)))"
    by (simp add: loop_events_append split_def split: option.splits)
  then show ?thesis
    by (simp add: check_loop_events(1) [OF assms(1) p])
qed

lemma ledger_after_cycle:
  "ledger this (checkHacktivityReports render this channel w s) =
     ledger this s @ concat (appended (cycle_events render this channel w s))"
proof (cases "fetch w")
  case (Inl e)
  then have "checkHacktivityReports render this channel w s =
      emit (Console_error ''Detailed error:'' (Some e)) s"
    by (simp add: checkHacktivityReports_def)
  then show ?thesis
    by (simp add: cycle_events_def ledger_def emit_def)
next
  case (Inr nodes)
  show ?thesis
  proof (cases "readFile (logFile this) (files s)")
    case (Inl e)
    with Inr have "checkHacktivityReports render this channel w s =
        emit (Console_error ''Detailed error:'' (Some e)) s"
      by (simp add: checkHacktivityReports_def)
    then show ?thesis
      by (simp add: cycle_events_def ledger_def emit_def)
  next
    case r: (Inr log)
    from readFile_Inr [OF r] obtain p where p: "logFile this = Some p" "files s p = Some log"
      by blast
    note c = check_loop_events [OF Inr p, where render = render and channel = channel]
    show ?thesis
      using p r c(2)
      by (simp add: c(1) ledger_def readFile_def appended_append appended_error_log)
  qed
qed

lemma loop_events_sent_prefix:
  "prefix (sent_ids (fst (loop_events render w channel log i ns)))
     (map databaseId (filter (\<lambda>n. \<not> includes_str log (databaseId n)) ns))"
  by (induction ns arbitrary: i) (auto simp: split_def split: sum.splits)

lemma cycle_sent_prefix:
  assumes "fetch w = Inr nodes" and "readFile (logFile this) (files s) = Inr log"
  shows "prefix (sent_ids (cycle_events render this channel w s))
           (map databaseId (filter (\<lambda>n. \<not> includes_str log (databaseId n)) nodes))"
proof -
  from readFile_Inr [OF assms(2)] obtain p where p: "logFile this = Some p" "files s p = Some log"
    by blast
  show ?thesis
    using loop_events_sent_prefix [of render w channel log 0 nodes]
    by (simp add: check_loop_events(1) [OF assms(1) p] sent_ids_append sent_ids_error_log)
qed

lemma smooth_cycle:
  assumes "fetch w = Inr nodes" and "readFile (logFile this) (files s) = Inr log"
    and "\<forall>i<length nodes. send_ok w i \<and> append_ok w i"
    and "\<forall>n\<in>set nodes. includes_str log (databaseId n)
           \<or> (\<exists>built. createReportEmbed render n = Inr built)"
  shows "cycle_events render this channel w s =
           concat (map (item_events render channel log) nodes) @ error_log (ending w None)"
    and "sent_ids (cycle_events render this channel w s) =
           map databaseId (filter (\<lambda>n. \<not> includes_str log (databaseId n)) nodes)"
    and "appended (cycle_events render this channel w s) =
           map (\<lambda>n. databaseId n @ newline)
             (filter (\<lambda>n. \<not> includes_str log (databaseId n)) nodes)"
    and "ledger this (checkHacktivityReports render this channel w s) =
           log @ concat (map (\<lambda>n. databaseId n @ newline)
                          (filter (\<lambda>n. \<not> includes_str log (databaseId n)) nodes))"
proof -
  from readFile_Inr [OF assms(2)] obtain p where p: "logFile this = Some p" "files s p = Some log"
    by blast
  have "\<forall>j<length nodes. send_ok w (0 + j) \<and> append_ok w (0 + j)"
    using assms(3) by simp
  from loop_events_smooth [OF this assms(4)]
  have l: "loop_events render w channel log 0 nodes =
             (concat (map (item_events render channel log) nodes), None)" .
  show ev: "cycle_events render this channel w s =
              concat (map (item_events render channel log) nodes) @ error_log (ending w None)"
    by (simp add: check_loop_events(1) [OF assms(1) p] l)
  show "sent_ids (cycle_events render this channel w s) =
                map databaseId (filter (\<lambda>n. \<not> includes_str log (databaseId n)) nodes)"
    by (simp only: ev sent_ids_append sent_ids_error_log append_Nil2
          concat_appended_item_events(2) [OF assms(4)])
  show ap: "appended (cycle_events render this channel w s) =
           map (\<lambda>n. databaseId n @ newline)
             (filter (\<lambda>n. \<not> includes_str log (databaseId n)) nodes)"
    by (simp only: ev appended_append appended_error_log append_Nil2
          concat_appended_item_events(1) [OF assms(4)])
  have "ledger this s = log"
    using assms(2) by (simp add: ledger_def)
  then show "ledger this (checkHacktivityReports render this channel w s) =
                log @ concat (map (\<lambda>n. databaseId n @ newline)
                               (filter (\<lambda>n. \<not> includes_str log (databaseId n)) nodes))"
    by (simp only: ledger_after_cycle ap)
qed

subsection \<open>Cycles that stop at an item\<close>

lemma dispatch_append:
  "dispatch render w this channel log i (xs @ ys) s =
     (case dispatch render w this channel log i xs s of
        (s', None) \<Rightarrow> dispatch render w this channel log (i + length xs) ys s'
      | (s', Some e) \<Rightarrow> (s', Some e))"
  by (induction xs arbitrary: i s) (simp_all add: Let_def split: sum.splits)

lemma loop_events_complete:
  "snd (loop_events render w channel log i ns) = None \<Longrightarrow>
     fst (loop_events render w channel log i ns) =
       concat (map (item_events render channel log) ns)
     \<and> (\<forall>n\<in>set ns. includes_str log (databaseId n)
            \<or> (\<exists>built. createReportEmbed render n = Inr built))"
  by (induction ns arbitrary: i)
     (auto simp: split_def item_events_def split: if_splits sum.splits)

lemma aborted_cycle:
  assumes "fetch w = Inr (pre @ n # post)"
    and "readFile (logFile this) (files s) = Inr log"
    and "snd (dispatch render w this channel log 0 pre s) = None"
    and "\<not> includes_str log (databaseId n)"
    and "case createReportEmbed render n of
           Inl e' \<Rightarrow> e' = e
         | Inr built \<Rightarrow> \<not> send_ok w (length pre) \<and> e = Send_failed"
  shows "checkHacktivityReports render this channel w s =
           emit (Console_error ''Detailed error:'' (Some e))
             (fst (dispatch render w this channel log 0 pre s))"
    and "sent_ids (cycle_events render this channel w s) =
           map databaseId (filter (\<lambda>m. \<not> includes_str log (databaseId m)) pre)"
    and "appended (cycle_events render this channel w s) =
           map (\<lambda>m. databaseId m @ newline)
             (filter (\<lambda>m. \<not> includes_str log (databaseId m)) pre)"
    and "ledger this (checkHacktivityReports render this channel w s) =
           log @ concat (map (\<lambda>m. databaseId m @ newline)
                          (filter (\<lambda>m. \<not> includes_str log (databaseId m)) pre))"
proof -
  from readFile_Inr [OF assms(2)] obtain p where p: "logFile this = Some p" "files s p = Some log"
    by blast
  obtain s1 where s1: "dispatch render w this channel log 0 pre s = (s1, None)"
    using assms(3) by (cases "dispatch render w this channel log 0 pre s") simp
  have stop: "dispatch render w this channel log (length pre) (n # post) s1 = (s1, Some e)"
    using assms(4,5) by (auto simp: Let_def split: sum.splits)
  have "dispatch render w this channel log 0 (pre @ n # post) s =
        dispatch render w this channel log (0 + length pre) (n # post) s1"
    by (simp only: dispatch_append s1 prod.case option.case)
  with stop have "dispatch render w this channel log 0 (pre @ n # post) s = (s1, Some e)"
    by (simp only: add_0)
  then show c: "checkHacktivityReports render this channel w s =
           emit (Console_error ''Detailed error:'' (Some e))
             (fst (dispatch render w this channel log 0 pre s))"
    using assms(1,2) s1 by (simp add: checkHacktivityReports_def)
  have lp: "snd (loop_events render w channel log 0 pre) = None"
    using dispatch_loop_events [OF p, of render w channel log 0 pre] assms(3) by simp
  note full = loop_events_complete [OF lp]
  have lstop: "loop_events render w channel log (length pre) (n # post) = ([], Some e)"
    using assms(4,5) by (auto split: sum.splits)
  have ev: "cycle_events render this channel w s =
      concat (map (item_events render channel log) pre) @ [Console_error ''Detailed error:'' (Some e)]"
    using reached_item_events [OF assms(1,2,3)] full lstop
    by (simp add: error_log_def ending_def)
  from full have fmt: "\<forall>n\<in>set pre. includes_str log (databaseId n)
            \<or> (\<exists>built. createReportEmbed render n = Inr built)"
    by blast
  show "sent_ids (cycle_events render this channel w s) =
           map databaseId (filter (\<lambda>m. \<not> includes_str log (databaseId m)) pre)"
    by (simp add: ev sent_ids_append concat_appended_item_events(2) [OF fmt])
  show ap: "appended (cycle_events render this channel w s) =
           map (\<lambda>m. databaseId m @ newline)
             (filter (\<lambda>m. \<not> includes_str log (databaseId m)) pre)"
    by (simp add: ev appended_append concat_appended_item_events(1) [OF fmt])
  have "ledger this s = log"
    using assms(2) by (simp add: ledger_def)
  then show "ledger this (checkHacktivityReports render this channel w s) =
           log @ concat (map (\<lambda>m. databaseId m @ newline)
                          (filter (\<lambda>m. \<not> includes_str log (databaseId m)) pre))"
    by (simp only: ledger_after_cycle ap)
qed

lemma reached_item_is_sent:
  assumes "fetch w = Inr (pre @ n # post)"
    and "readFile (logFile this) (files s) = Inr log"
    and "snd (dispatch render w this channel log 0 pre s) = None"
    and "\<not> includes_str log (databaseId n)"
    and "createReportEmbed render n = Inr built"
    and "send_ok w (length pre)"
  shows "Sent channel (databaseId n) built \<in> set (cycle_events render this channel w s)"
    and "databaseId n \<in> set (sent_ids (cycle_events render this channel w s))"
proof -
  have "\<exists>rest. fst (loop_events render w channel log (length pre) (n # post)) =
          Sent channel (databaseId n) built # rest"
    using assms(4,5,6) by (simp add: split_def)
  then obtain rest where "fst (loop_events render w channel log (length pre) (n # post)) =
          Sent channel (databaseId n) built # rest"
    by blast
  with reached_item_events [OF assms(1,2,3)]
  have ev: "cycle_events render this channel w s =
      fst (loop_events render w channel log 0 pre) @ Sent channel (databaseId n) built # rest
      @ error_log (ending w (snd (loop_events render w channel log (length pre) (n # post))))"
    by simp
  show "Sent channel (databaseId n) built \<in> set (cycle_events render this channel w s)"
    by (simp add: ev)
  show "databaseId n \<in> set (sent_ids (cycle_events render this channel w s))"
    by (simp add: ev sent_ids_append)
qed

lemma readFile_after_cycle:
  assumes "readFile (logFile this) (files s) = Inr log"
  shows "readFile (logFile this) (files (checkHacktivityReports render this channel w s)) =
           Inr (ledger this (checkHacktivityReports render this channel w s))"
proof -
  from readFile_Inr [OF assms] obtain p where p: "logFile this = Some p" "files s p = Some log"
    by blast
  have "\<exists>text. files (checkHacktivityReports render this channel w s) p = Some text"
  proof (cases "fetch w")
    case (Inl e)
    with p show ?thesis by (simp add: checkHacktivityReports_def emit_def)
  next
    case (Inr nodes)
    from check_loop_events(2) [OF Inr p] show ?thesis by blast
  qed
  then show ?thesis
    using p by (auto simp add: ledger_def readFile_def)
qed

subsection \<open>Currency codes\<close>

lemma formatBounty_rejects:
  assumes "cur = Undefined \<or> \<not> well_formed_currency_code (to_string cur)"
  shows "formatBounty render amt cur =
           Inl (if cur = Undefined then Currency_required else Invalid_currency)"
  using assms by (cases cur) (auto simp: formatBounty_def number_format_def)

lemma formatBounty_accepts:
  "well_formed_currency_code code \<Longrightarrow>
     formatBounty render amt (Str code) =
       Inr (money_bag @ '' '' @ render (map ascii_upper code) amt)"
  by (simp add: formatBounty_def number_format_def)

lemma createReportEmbed_rejects:
  assumes "cur = Undefined \<or> \<not> well_formed_currency_code (to_string cur)"
    and "currency n = cur"
  shows "\<exists>e. createReportEmbed render n = Inl e"
  using formatBounty_rejects [OF assms(1), of render "total_awarded_amount n"] assms(2)
  by (auto simp: createReportEmbed_def split: sum.splits)

subsection \<open>Sends, appends and entries of a cycle\<close>

lemma Sent_sent_ids: "Sent channel x built \<in> set evs \<Longrightarrow> x \<in> set (sent_ids evs)"
  by (induction evs rule: sent_ids.induct) auto

lemma cycle_events_cases:
  obtains (aborted) e where "cycle_events render this channel w s =
                                [Console_error ''Detailed error:'' (Some e)]"
  | (looped) nodes log where "fetch w = Inr nodes"
      and "cycle_events render this channel w s =
             fst (loop_events render w channel log 0 nodes)
             @ error_log (ending w (snd (loop_events render w channel log 0 nodes)))"
proof (cases "fetch w")
  case (Inl e)
  then have "cycle_events render this channel w s = [Console_error ''Detailed error:'' (Some e)]"
    by (simp add: cycle_events_def checkHacktivityReports_def emit_def)
  then show ?thesis by (rule aborted)
next
  case (Inr nodes)
  show ?thesis
  proof (cases "readFile (logFile this) (files s)")
    case (Inl e)
    with Inr have "cycle_events render this channel w s =
        [Console_error ''Detailed error:'' (Some e)]"
      by (simp add: cycle_events_def checkHacktivityReports_def emit_def)
    then show ?thesis by (rule aborted)
  next
    case r: (Inr log)
    from readFile_Inr [OF r] obtain p where p: "logFile this = Some p" "files s p = Some log"
      by blast
    from check_loop_events(1) [OF Inr p] Inr show ?thesis by (rule looped [rotated])
  qed
qed

lemma cycle_counts:
  "length (sent_ids (cycle_events render this channel w s)) =
     length (appended (cycle_events render this channel w s))
   \<or> (length (sent_ids (cycle_events render this channel w s)) =
        Suc (length (appended (cycle_events render this channel w s)))
      \<and> last (cycle_events render this channel w s) =
          Console_error ''Detailed error:'' (Some Append_failed))"
proof (cases rule: cycle_events_cases [of render this channel w s])
  case (aborted e)
  then show ?thesis by simp
next
  case (looped nodes log)
  have l: "last (cycle_events render this channel w s) =
             Console_error ''Detailed error:'' (Some Append_failed)"
    if "snd (loop_events render w channel log 0 nodes) = Some Append_failed"
    using that by (simp add: looped(2) error_log_def ending_def)
  have "length (sent_ids (cycle_events render this channel w s)) =
          length (sent_ids (fst (loop_events render w channel log 0 nodes)))"
    and "length (appended (cycle_events render this channel w s)) =
          length (appended (fst (loop_events render w channel log 0 nodes)))"
    by (simp_all add: looped(2) sent_ids_append appended_append sent_ids_error_log
          appended_error_log)
  then show ?thesis
    using loop_events_counts [of render w channel log 0 nodes] l by auto
qed

lemma cycle_appended_records:
  assumes "t \<in> set (appended (cycle_events render this channel w s))"
  shows "\<exists>nodes. fetch w = Inr nodes \<and> (\<exists>n\<in>set nodes. t = databaseId n @ newline)"
proof (cases rule: cycle_events_cases [of render this channel w s])
  case (aborted e)
  with assms show ?thesis by simp
next
  case (looped nodes log)
  with assms have "t \<in> set (appended (fst (loop_events render w channel log 0 nodes)))"
    by (simp add: appended_append appended_error_log)
  from loop_events_appended_novel [OF this] looped(1) show ?thesis by blast
qed

lemma ledger_across_cycles:
  "prefix (ledger this s)
     (ledger this (fold (checkHacktivityReports render this channel) ticks s))"
proof (induction ticks arbitrary: s)
  case Nil
  show ?case by simp
next
  case (Cons w ticks)
  have "prefix (ledger this s) (ledger this (checkHacktivityReports render this channel w s))"
    by (simp add: ledger_after_cycle)
  also have "prefix \<dots> (ledger this (fold (checkHacktivityReports render this channel) ticks
      (checkHacktivityReports render this channel w s)))"
    by (rule Cons.IH)
  finally show ?case by simp
qed

lemma entries_mono: "prefix a b \<Longrightarrow> length (ledger_entries a) \<le> length (ledger_entries b)"
  by (auto simp: prefix_def length_entries_append)

subsection \<open>Start-up\<close>

lemma constructor_bot:
  "fst (constructor s0) = \<lparr>logFile = Some ''log.txt'', channelFile = Some ''channel.txt''\<rparr>"
  by (simp add: constructor_def Let_def)

lemma constructor_state:
  "snd (constructor s0) =
     Inr ((if files s0 ''channel.txt'' = None
           then emit (Console_log
             ''Channel file not found. Please use .setup command to set monitoring channel'')
           else (\<lambda>s. s))
          (emit (Console_log ''Log file created'') (s0\<lparr>files := (files s0)(''log.txt'' \<mapsto> [])\<rparr>)))"
  by (simp add: constructor_def Let_def initializeFiles_called_def initializeFiles_resumed_def
        access_def writeFile_def emit_def split: option.splits)

subsection \<open>Severity names\<close>

lemma severity_fallback:
  assumes "to_string severity \<notin> set (map fst icons)"
    and "to_string severity \<notin> set object_prototype_keys"
  shows "getSeverityIcon severity = Val ''-''" and "getSeverityColor severity = Val 0"
proof -
  have "map_of icons (to_string severity) = None"
    using assms(1) by (simp add: map_of_eq_None_iff)
  then show "getSeverityIcon severity = Val ''-''"
    using assms(2) by (simp add: getSeverityIcon_def lookup_or_def)
  have "map fst colors = rev (map fst icons)"
    by (simp add: colors_def icons_def)
  then have "to_string severity \<notin> set (map fst colors)"
    using assms(1) by simp
  then have "map_of colors (to_string severity) = None"
    by (simp add: map_of_eq_None_iff)
  then show "getSeverityColor severity = Val 0"
    using assms(2) by (simp add: getSeverityColor_def lookup_or_def)
qed

section \<open>The claims\<close>

text \<open>
  C8. If the request to the feed fails, or the answer is malformed before any item can be
  read (it has no item list, or its first item has no report), the cycle sends nothing
  and leaves every file unchanged, the ledger and the channel file among them; one error
  is printed by \<open>console.error\<close> (the request's error; for a malformed answer the
  TypeError, or the error of reading the ledger, which comes first) and the call returns
  normally. The cycle after it, on the next tick, runs as if the failed one had not
  happened: it adds the same events and leaves the same files as it would have without
  the failed cycle. When the answer is malformed only after some items and nothing else
  fails, those items are processed first, each skipped or sent and recorded, and the
  TypeError is printed after them.
\<close>

theorem failed_fetch_aborts_cycle:
  "(fetch w = Inl e \<or> (fetch w = Inr [] \<and> malformed w) \<longrightarrow>
      checkHacktivityReports render this channel w s =
        emit (Console_error ''Detailed error:''
               (Some (case fetch w of
                        Inl e' \<Rightarrow> e'
                      | Inr _ \<Rightarrow> (case readFile (logFile this) (files s) of
                                    Inl e' \<Rightarrow> e'
                                  | Inr _ \<Rightarrow> Type_error)))) s
    \<and> files (checkHacktivityReports render this channel w s) = files s
    \<and> length (cycle_events render this channel w s) = 1
    \<and> sent_ids (cycle_events render this channel w s) = []
    \<and> appended (cycle_events render this channel w s) = []
    \<and> files (checkHacktivityReports render this channel w'
               (checkHacktivityReports render this channel w s)) =
        files (checkHacktivityReports render this channel w' s)
    \<and> cycle_events render this channel w'
          (checkHacktivityReports render this channel w s) =
        cycle_events render this channel w' s)
   \<and> (fetch w = Inr nodes \<and> malformed w
       \<and> readFile (logFile this) (files s) = Inr log
       \<and> (\<forall>i<length nodes. send_ok w i \<and> append_ok w i)
       \<and> (\<forall>n\<in>set nodes. includes_str log (databaseId n)
              \<or> (\<exists>built. createReportEmbed render n = Inr built)) \<longrightarrow>
      cycle_events render this channel w s =
        concat (map (item_events render channel log) nodes)
        @ [Console_error ''Detailed error:'' (Some Type_error)])"
proof (intro conjI impI)
  let ?e = "case fetch w of
              Inl e' \<Rightarrow> e'
            | Inr _ \<Rightarrow> (case readFile (logFile this) (files s) of
                          Inl e' \<Rightarrow> e'
                        | Inr _ \<Rightarrow> Type_error)"
  assume h: "fetch w = Inl e \<or> (fetch w = Inr [] \<and> malformed w)"
  then show c: "checkHacktivityReports render this channel w s =
                  emit (Console_error ''Detailed error:'' (Some ?e)) s"
    by (auto simp add: checkHacktivityReports_def split: sum.splits)
  show f: "files (checkHacktivityReports render this channel w s) = files s"
    by (simp add: c emit_def)
  have ev: "cycle_events render this channel w s = [Console_error ''Detailed error:'' (Some ?e)]"
    by (simp add: cycle_events_def c emit_def)
  show "length (cycle_events render this channel w s) = 1"
    by (simp add: ev)
  show "sent_ids (cycle_events render this channel w s) = []"
    by (simp add: ev)
  show "appended (cycle_events render this channel w s) = []"
    by (simp add: ev)
  show "files (checkHacktivityReports render this channel w'
               (checkHacktivityReports render this channel w s)) =
        files (checkHacktivityReports render this channel w' s)"
    by (rule same_files_same_cycle(2) [OF f])
  show "cycle_events render this channel w'
          (checkHacktivityReports render this channel w s) =
        cycle_events render this channel w' s"
    by (rule same_files_same_cycle(1) [OF f])
next
  assume h: "fetch w = Inr nodes \<and> malformed w
       \<and> readFile (logFile this) (files s) = Inr log
       \<and> (\<forall>i<length nodes. send_ok w i \<and> append_ok w i)
       \<and> (\<forall>n\<in>set nodes. includes_str log (databaseId n)
              \<or> (\<exists>built. createReportEmbed render n = Inr built))"
  then have f: "fetch w = Inr nodes" and m: "malformed w"
    and r: "readFile (logFile this) (files s) = Inr log"
    and env: "\<forall>i<length nodes. send_ok w i \<and> append_ok w i"
    and fmt: "\<forall>n\<in>set nodes. includes_str log (databaseId n)
              \<or> (\<exists>built. createReportEmbed render n = Inr built)"
    by blast+
  from m have "error_log (ending w None) = [Console_error ''Detailed error:'' (Some Type_error)]"
    by (simp add: error_log_def ending_def)
  with smooth_cycle(1) [OF f r env fmt, of channel]
  show "cycle_events render this channel w s =
        concat (map (item_events render channel log) nodes)
        @ [Console_error ''Detailed error:'' (Some Type_error)]"
    by simp
qed

theorem failed_fetch_aborts_cycle_witness:
  "fetch feed_down = Inl Fetch_failed
   \<and> trace (checkHacktivityReports plain_render running_bot ''C'' feed_down (disk ''7'')) =
       [Console_error ''Detailed error:'' (Some Fetch_failed)]
   \<and> files (checkHacktivityReports plain_render running_bot ''C'' feed_down (disk ''7'')) =
       files (disk ''7'')
   \<and> sent_ids (cycle_events plain_render running_bot ''C'' feed_down (disk ''7'')) = []
   \<and> sent_ids (cycle_events plain_render running_bot ''C'' (all_succeed [report ''8''])
         (checkHacktivityReports plain_render running_bot ''C'' feed_down (disk ''7''))) = [''8'']
   \<and> fetch (malformed_after []) = Inr []
   \<and> malformed (malformed_after [])
   \<and> trace (checkHacktivityReports plain_render running_bot ''C'' (malformed_after [])
        (disk ''7'')) = [Console_error ''Detailed error:'' (Some Type_error)]
   \<and> sent_ids (cycle_events plain_render running_bot ''C'' (malformed_after [report ''8''])
        (disk ''7'')) = [''8'']"
proof -
  have h: "fetch feed_down = Inl Fetch_failed"
    by (simp add: feed_down_def)
  note t = failed_fetch_aborts_cycle [of feed_down Fetch_failed plain_render running_bot "''C''"
      "disk ''7''" "all_succeed [report ''8'']"]
  have n: "sent_ids (cycle_events plain_render running_bot ''C'' (all_succeed [report ''8''])
             (disk ''7'')) = [''8'']"
    by (simp add: cycle_defs sample_defs)
  from t h have "checkHacktivityReports plain_render running_bot ''C'' feed_down (disk ''7'') =
      emit (Console_error ''Detailed error:'' (Some Fetch_failed)) (disk ''7'')"
    by simp
  then have tr: "trace (checkHacktivityReports plain_render running_bot ''C'' feed_down (disk ''7'')) =
       [Console_error ''Detailed error:'' (Some Fetch_failed)]"
    by (simp add: emit_def disk_def)
  from t h have fl: "files (checkHacktivityReports plain_render running_bot ''C'' feed_down (disk ''7'')) =
       files (disk ''7'')"
    by blast
  from t h have no: "sent_ids (cycle_events plain_render running_bot ''C'' feed_down (disk ''7'')) = []"
    by blast
  from t h have "cycle_events plain_render running_bot ''C'' (all_succeed [report ''8''])
         (checkHacktivityReports plain_render running_bot ''C'' feed_down (disk ''7'')) =
       cycle_events plain_render running_bot ''C'' (all_succeed [report ''8'']) (disk ''7'')"
    by blast
  with n have nx: "sent_ids (cycle_events plain_render running_bot ''C'' (all_succeed [report ''8''])
         (checkHacktivityReports plain_render running_bot ''C'' feed_down (disk ''7''))) = [''8'']"
    by (simp only:)
  have m1: "fetch (malformed_after []) = Inr []" and m2: "malformed (malformed_after [])"
    by (simp_all add: malformed_after_def)
  note u = failed_fetch_aborts_cycle [of "malformed_after []" Fetch_failed plain_render
      running_bot "''C''" "disk ''7''"]
  have rd: "readFile (logFile running_bot) (files (disk ''7'')) = Inr ''7''"
    by (simp add: readFile_def running_bot_def disk_def)
  from u m1 m2 have "checkHacktivityReports plain_render running_bot ''C'' (malformed_after [])
        (disk ''7'') = emit (Console_error ''Detailed error:'' (Some Type_error)) (disk ''7'')"
    by (simp add: rd)
  then have mt: "trace (checkHacktivityReports plain_render running_bot ''C'' (malformed_after [])
        (disk ''7'')) = [Console_error ''Detailed error:'' (Some Type_error)]"
    by (simp add: emit_def disk_def)
  note v = failed_fetch_aborts_cycle [of "malformed_after [report ''8'']" Fetch_failed plain_render
      running_bot "''C''" "disk ''7''" _ "[report ''8'']" "''7''"]
  have v1: "fetch (malformed_after [report ''8'']) = Inr [report ''8'']"
    and v2: "malformed (malformed_after [report ''8''])"
    and v3: "\<forall>i<length [report ''8'']. send_ok (malformed_after [report ''8'']) i
               \<and> append_ok (malformed_after [report ''8'']) i"
    by (simp_all add: malformed_after_def)
  have v4: "\<forall>n\<in>set [report ''8'']. includes_str ''7'' (databaseId n)
              \<or> (\<exists>built. createReportEmbed plain_render n = Inr built)"
    by (simp add: report_def formatter_defs)
  from v v1 v2 rd v3 v4
  have "cycle_events plain_render running_bot ''C'' (malformed_after [report ''8'']) (disk ''7'') =
        concat (map (item_events plain_render ''C'' ''7'') [report ''8''])
        @ [Console_error ''Detailed error:'' (Some Type_error)]"
    by blast
  then have ms: "sent_ids (cycle_events plain_render running_bot ''C''
      (malformed_after [report ''8'']) (disk ''7'')) = [''8'']"
    by (simp add: item_events_def report_def formatter_defs)
  show ?thesis
    by (intro conjI) (rule h tr fl no nx m1 m2 mt ms)+
qed

text \<open>
  An answer whose second item has no report is a malformed answer of the feed, yet the
  cycle sends and records the first item before the TypeError is thrown and printed.
\<close>

theorem malformed_answer_after_an_item_sends_it:
  "fetch (malformed_after [report ''A'']) = Inr [report ''A'']
   \<and> malformed (malformed_after [report ''A''])
   \<and> sent_ids (cycle_events plain_render running_bot ''C''
        (malformed_after [report ''A'']) (disk [])) = [''A'']
   \<and> last (cycle_events plain_render running_bot ''C''
        (malformed_after [report ''A'']) (disk [])) =
       Console_error ''Detailed error:'' (Some Type_error)
   \<and> ledger running_bot (disk []) = []
   \<and> ledger running_bot (checkHacktivityReports plain_render running_bot ''C''
        (malformed_after [report ''A'']) (disk [])) = ''A'' @ newline"
  by (simp add: cycle_defs sample_defs ledger_def)

text \<open>
  C9. If \<open>channel.txt\<close> does not exist when the process starts (no destination was ever
  configured), then \<open>startHacktivityMonitoring\<close>, run on the state the constructor
  leaves, prints one \<open>Monitoring setup error\<close> and returns: whatever the feed would
  answer at the first check and at any later tick, no cycle runs, nothing is sent and no
  file changes.
\<close>

theorem unconfigured_never_monitors:
  assumes "files s0 ''channel.txt'' = None" and "constructor s0 = (this, Inr s)"
  shows "startHacktivityMonitoring render this cache ticks s =
           emit (Console_error ''Monitoring setup error:'' (Some ENOENT)) s
         \<and> sent_ids (drop (length (trace s))
              (trace (startHacktivityMonitoring render this cache ticks s))) = []
         \<and> files (startHacktivityMonitoring render this cache ticks s) = files s"
proof -
  have b: "this = \<lparr>logFile = Some ''log.txt'', channelFile = Some ''channel.txt''\<rparr>"
    using assms(2) constructor_bot [of s0] by simp
  have "snd (constructor s0) = Inr s"
    using assms(2) by simp
  then have "files s ''channel.txt'' = None"
    using assms(1) by (auto simp add: constructor_state emit_def)
  then have "startHacktivityMonitoring render this cache ticks s =
           emit (Console_error ''Monitoring setup error:'' (Some ENOENT)) s"
    by (simp add: startHacktivityMonitoring_def readFile_def b)
  then show ?thesis by (simp add: emit_def)
qed

theorem unconfigured_never_monitors_witness:
  "files (disk []) ''channel.txt'' = None
   \<and> fst (constructor (disk [])) = running_bot
   \<and> drop 2 (trace (startHacktivityMonitoring plain_render running_bot (\<lambda>c. True)
        [all_succeed [report ''8''], all_succeed [report ''9'']]
        (emit (Console_log
           ''Channel file not found. Please use .setup command to set monitoring channel'')
           (emit (Console_log ''Log file created'') (disk []))))) =
       [Console_error ''Monitoring setup error:'' (Some ENOENT)]
   \<and> sent_ids (trace (startHacktivityMonitoring plain_render running_bot (\<lambda>c. True)
        [all_succeed [report ''8''], all_succeed [report ''9'']] (configured ''C'' []))) =
       [''8'', ''9'']"
proof -
  let ?s = "emit (Console_log
           ''Channel file not found. Please use .setup command to set monitoring channel'')
           (emit (Console_log ''Log file created'') (disk []))"
  have h1: "files (disk []) ''channel.txt'' = None"
    by (simp add: disk_def)
  have h2: "constructor (disk []) = (running_bot, Inr ?s)"
    by (simp add: constructor_def Let_def initializeFiles_called_def initializeFiles_resumed_def
          access_def writeFile_def emit_def disk_def running_bot_def)
  have h3: "fst (constructor (disk [])) = running_bot"
    by (simp add: h2)
  note t = unconfigured_never_monitors [OF h1 h2, of plain_render "\<lambda>c. True"
      "[all_succeed [report ''8''], all_succeed [report ''9'']]"]
  have "drop 2 (trace (startHacktivityMonitoring plain_render running_bot (\<lambda>c. True)
        [all_succeed [report ''8''], all_succeed [report ''9'']] ?s)) =
       [Console_error ''Monitoring setup error:'' (Some ENOENT)]"
    using t by (simp add: emit_def disk_def)
  moreover have "sent_ids (trace (startHacktivityMonitoring plain_render running_bot (\<lambda>c. True)
        [all_succeed [report ''8''], all_succeed [report ''9'']] (configured ''C'' []))) =
       [''8'', ''9'']"
    by (simp add: startHacktivityMonitoring_def cycle_defs sample_defs newline_def)
  ultimately show ?thesis
    using h1 h3 by (intro conjI)
qed

text \<open>
  C10. The loop decides whether an item was already relayed by \<open>log.includes(reportId)\<close>
  on the whole text of the ledger. So whenever the item's identifier occurs anywhere in
  that text, also inside a longer identifier that was recorded, the cycle neither sends
  the item nor appends its identifier, whether or not the item was ever sent; and when the
  loop reaches the item (the items before it raise nothing), it prints the skip.
\<close>

theorem membership_is_substring_containment:
  assumes "fetch w = Inr nodes"
    and "readFile (logFile this) (files s) = Inr (before @ reportId @ after)"
  shows "reportId \<notin> set (sent_ids (cycle_events render this channel w s))
         \<and> reportId @ newline \<notin> set (appended (cycle_events render this channel w s))
         \<and> (nodes = pre @ n # post \<and> databaseId n = reportId
              \<and> snd (dispatch render w this channel (before @ reportId @ after) 0 pre s) = None
             \<longrightarrow> Console_log (reportId @ '' skipping...'')
                   \<in> set (cycle_events render this channel w s))"
proof -
  have inc: "includes_str (before @ reportId @ after) reportId"
    by (auto simp: includes_str_iff)
  have reached: "Console_log (reportId @ '' skipping...'')
                   \<in> set (cycle_events render this channel w s)"
    if "nodes = pre @ n # post" "databaseId n = reportId"
       "snd (dispatch render w this channel (before @ reportId @ after) 0 pre s) = None"
  proof -
    have "fetch w = Inr (pre @ n # post)" using assms(1) that(1) by simp
    from reached_item_events [OF this assms(2) that(3)] inc that(2)
    show ?thesis by (simp add: split_def)
  qed
  note none = included_never_sent [OF inc assms, of render channel]
  show ?thesis
  proof (intro conjI impI)
    show "reportId \<notin> set (sent_ids (cycle_events render this channel w s))"
      by (rule none(1))
    show "reportId @ newline \<notin> set (appended (cycle_events render this channel w s))"
      by (rule none(2))
    assume "nodes = pre @ n # post \<and> databaseId n = reportId
              \<and> snd (dispatch render w this channel (before @ reportId @ after) 0 pre s) = None"
    then show "Console_log (reportId @ '' skipping...'')
                   \<in> set (cycle_events render this channel w s)"
      using reached by simp
  qed
qed

theorem membership_is_substring_containment_witness:
  "fetch (all_succeed [report ''8'', report ''23'']) = Inr ([report ''8''] @ report ''23'' # [])
   \<and> readFile (logFile running_bot) (files (disk (''1234'' @ newline))) =
       Inr (''1'' @ ''23'' @ (''4'' @ newline))
   \<and> ''23'' \<notin> set (sent_ids (cycle_events plain_render running_bot ''C''
         (all_succeed [report ''8'', report ''23'']) (disk (''1234'' @ newline))))
   \<and> ''23'' @ newline \<notin> set (appended (cycle_events plain_render running_bot ''C''
         (all_succeed [report ''8'', report ''23'']) (disk (''1234'' @ newline))))
   \<and> Console_log (''23'' @ '' skipping...'') \<in> set (cycle_events plain_render running_bot ''C''
         (all_succeed [report ''8'', report ''23'']) (disk (''1234'' @ newline)))"
proof -
  let ?w = "all_succeed [report ''8'', report ''23'']"
  let ?s = "disk (''1234'' @ newline)"
  have h1: "fetch ?w = Inr [report ''8'', report ''23'']"
    by (simp add: all_succeed_def)
  have h2: "readFile (logFile running_bot) (files ?s) = Inr (''1'' @ ''23'' @ (''4'' @ newline))"
    by (simp add: readFile_def running_bot_def disk_def)
  have h3: "[report ''8'', report ''23''] = [report ''8''] @ report ''23'' # []"
    by simp
  have h4: "databaseId (report ''23'') = ''23''"
    by (simp add: report_def)
  have h5: "snd (dispatch plain_render ?w running_bot ''C'' (''1'' @ ''23'' @ (''4'' @ newline)) 0
             [report ''8''] ?s) = None"
    by (simp add: cycle_defs sample_defs newline_def)
  note t = membership_is_substring_containment [OF h1 h2, of plain_render "''C''"
      "[report ''8'']" "report ''23''" "[]"]
  from t h3 h4 h5 have l: "Console_log (''23'' @ '' skipping...'') \<in> set (cycle_events plain_render
      running_bot ''C'' ?w ?s)"
    by blast
  from t have a: "''23'' \<notin> set (sent_ids (cycle_events plain_render running_bot ''C'' ?w ?s))"
    by blast
  from t have b: "''23'' @ newline \<notin> set (appended (cycle_events plain_render running_bot ''C'' ?w ?s))"
    by blast
  have h1': "fetch ?w = Inr ([report ''8''] @ report ''23'' # [])"
    using h1 by simp
  show ?thesis
    by (intro conjI) (rule h1' h2 a b l)+
qed

text \<open>
  C4. In a cycle that fetched a batch and read the ledger, an item whose identifier is an
  entry of the ledger is never sent and never appended. The items the cycle sends are, in
  batch order, the first of the items whose identifier does not occur in the ledger text,
  as far as the cycle gets. When nothing fails in the cycle (every send and append
  succeeds and every item that is not skipped can be formatted), the cycle's events are,
  item by item in batch order, the skip of an item the ledger text includes and the send,
  the append and the pause of every other item (and after them the printed TypeError when
  the answer is malformed there); so the skip of every item that is an entry is printed,
  all the other items whose identifier does not occur in the ledger text are sent, and
  the ledger gains exactly their identifiers, in that order.
\<close>

theorem recorded_items_are_skipped:
  assumes "fetch w = Inr nodes" and "readFile (logFile this) (files s) = Inr log"
  shows "(\<forall>n\<in>set nodes. databaseId n \<in> set (ledger_entries log) \<longrightarrow>
            databaseId n \<notin> set (sent_ids (cycle_events render this channel w s))
          \<and> databaseId n @ newline \<notin> set (appended (cycle_events render this channel w s)))
       \<and> prefix (sent_ids (cycle_events render this channel w s))
            (map databaseId (filter (\<lambda>n. \<not> includes_str log (databaseId n)) nodes))
       \<and> ((\<forall>i<length nodes. send_ok w i \<and> append_ok w i)
           \<and> (\<forall>n\<in>set nodes. includes_str log (databaseId n)
                  \<or> (\<exists>built. createReportEmbed render n = Inr built))
          \<longrightarrow> cycle_events render this channel w s =
                concat (map (item_events render channel log) nodes)
                @ (if malformed w then [Console_error ''Detailed error:'' (Some Type_error)]
                   else [])
              \<and> (\<forall>n\<in>set nodes. databaseId n \<in> set (ledger_entries log) \<longrightarrow>
                    Console_log (databaseId n @ '' skipping...'')
                      \<in> set (cycle_events render this channel w s))
              \<and> sent_ids (cycle_events render this channel w s) =
                map databaseId (filter (\<lambda>n. \<not> includes_str log (databaseId n)) nodes)
              \<and> ledger this (checkHacktivityReports render this channel w s) =
                log @ concat (map (\<lambda>n. databaseId n @ newline)
                               (filter (\<lambda>n. \<not> includes_str log (databaseId n)) nodes)))"
proof (intro conjI ballI impI)
  fix n
  assume "n \<in> set nodes" and "databaseId n \<in> set (ledger_entries log)"
  then have inc: "includes_str log (databaseId n)"
    by (simp add: entry_includes)
  note none = included_never_sent [OF inc assms, of render channel]
  show "databaseId n \<notin> set (sent_ids (cycle_events render this channel w s))"
    by (rule none(1))
  show "databaseId n @ newline \<notin> set (appended (cycle_events render this channel w s))"
    by (rule none(2))
next
  show "prefix (sent_ids (cycle_events render this channel w s))
            (map databaseId (filter (\<lambda>n. \<not> includes_str log (databaseId n)) nodes))"
    by (rule cycle_sent_prefix [OF assms])
next
  assume ok: "(\<forall>i<length nodes. send_ok w i \<and> append_ok w i)
           \<and> (\<forall>n\<in>set nodes. includes_str log (databaseId n)
                  \<or> (\<exists>built. createReportEmbed render n = Inr built))"
  then have env: "\<forall>i<length nodes. send_ok w i \<and> append_ok w i"
    and fmt: "\<forall>n\<in>set nodes. includes_str log (databaseId n)
                  \<or> (\<exists>built. createReportEmbed render n = Inr built)"
    by blast+
  note c = smooth_cycle [OF assms env fmt, of channel]
  show ev: "cycle_events render this channel w s =
                concat (map (item_events render channel log) nodes)
                @ (if malformed w then [Console_error ''Detailed error:'' (Some Type_error)]
                   else [])"
    using c(1) by (simp add: error_log_def ending_def)
  show "sent_ids (cycle_events render this channel w s) =
                map databaseId (filter (\<lambda>n. \<not> includes_str log (databaseId n)) nodes)"
    by (rule c(2))
  show "ledger this (checkHacktivityReports render this channel w s) =
                log @ concat (map (\<lambda>n. databaseId n @ newline)
                               (filter (\<lambda>n. \<not> includes_str log (databaseId n)) nodes))"
    by (rule c(4))
  fix n
  assume n: "n \<in> set nodes" and "databaseId n \<in> set (ledger_entries log)"
  then have "includes_str log (databaseId n)"
    by (simp add: entry_includes)
  then have "item_events render channel log n = [Console_log (databaseId n @ '' skipping...'')]"
    by (simp add: item_events_def)
  with n have "Console_log (databaseId n @ '' skipping...'')
      \<in> set (concat (map (item_events render channel log) nodes))"
    by force
  then show "Console_log (databaseId n @ '' skipping...'')
                      \<in> set (cycle_events render this channel w s)"
    by (simp add: c(1))
qed

theorem recorded_items_are_skipped_witness:
  "fetch (all_succeed [report ''A'', report ''B'', report ''C'']) =
     Inr [report ''A'', report ''B'', report ''C'']
   \<and> readFile (logFile running_bot) (files (disk (''B'' @ newline))) = Inr (''B'' @ newline)
   \<and> ''B'' \<in> set (ledger_entries (''B'' @ newline))
   \<and> ''B'' \<notin> set (sent_ids (cycle_events plain_render running_bot ''C''
         (all_succeed [report ''A'', report ''B'', report ''C'']) (disk (''B'' @ newline))))
   \<and> ''B'' @ newline \<notin> set (appended (cycle_events plain_render running_bot ''C''
         (all_succeed [report ''A'', report ''B'', report ''C'']) (disk (''B'' @ newline))))
   \<and> sent_ids (cycle_events plain_render running_bot ''C''
         (all_succeed [report ''A'', report ''B'', report ''C'']) (disk (''B'' @ newline))) =
       [''A'', ''C'']
   \<and> ledger running_bot (checkHacktivityReports plain_render running_bot ''C''
         (all_succeed [report ''A'', report ''B'', report ''C'']) (disk (''B'' @ newline))) =
       ''B'' @ newline @ ''A'' @ newline @ ''C'' @ newline"
proof -
  let ?ns = "[report ''A'', report ''B'', report ''C'']"
  let ?w = "all_succeed ?ns"
  let ?s = "disk (''B'' @ newline)"
  let ?log = "''B'' @ newline"
  have h1: "fetch ?w = Inr ?ns"
    by (simp add: all_succeed_def)
  have h2: "readFile (logFile running_bot) (files ?s) = Inr ?log"
    by (simp add: readFile_def running_bot_def disk_def)
  have h3: "''B'' \<in> set (ledger_entries ?log)"
    by (simp add: ledger_entries_def newline_def)
  have h4: "\<forall>i<length ?ns. send_ok ?w i \<and> append_ok ?w i"
    by (simp add: all_succeed_def)
  have h5: "\<forall>n\<in>set ?ns. includes_str ?log (databaseId n)
                  \<or> (\<exists>built. createReportEmbed plain_render n = Inr built)"
    by (simp add: report_def formatter_defs newline_def)
  note t = recorded_items_are_skipped [OF h1 h2, of plain_render "''C''"]
  have b: "databaseId (report ''B'') = ''B''" "report ''B'' \<in> set ?ns"
    by (simp_all add: report_def)
  from t b h3 have a1: "''B'' \<notin> set (sent_ids (cycle_events plain_render running_bot ''C'' ?w ?s))"
    by metis
  from t b h3 have a2: "''B'' @ newline \<notin> set (appended (cycle_events plain_render running_bot ''C'' ?w ?s))"
    by metis
  from t h4 h5 have "sent_ids (cycle_events plain_render running_bot ''C'' ?w ?s) =
       map databaseId (filter (\<lambda>n. \<not> includes_str ?log (databaseId n)) ?ns)"
    by blast
  then have a3: "sent_ids (cycle_events plain_render running_bot ''C'' ?w ?s) = [''A'', ''C'']"
    by (simp add: report_def newline_def)
  from t h4 h5 have "ledger running_bot (checkHacktivityReports plain_render running_bot ''C'' ?w ?s) =
       ?log @ concat (map (\<lambda>n. databaseId n @ newline)
                        (filter (\<lambda>n. \<not> includes_str ?log (databaseId n)) ?ns))"
    by blast
  then have a4: "ledger running_bot (checkHacktivityReports plain_render running_bot ''C'' ?w ?s) =
       ''B'' @ newline @ ''A'' @ newline @ ''C'' @ newline"
    by (simp add: report_def newline_def)
  show ?thesis
    by (intro conjI) (rule h1 h2 h3 a1 a2 a3 a4)+
qed

text \<open>
  Outside a cycle in which nothing fails, the skip need not be printed and the other items
  need not be sent: with \<open>B\<close> recorded and the batch \<open>A\<close>, \<open>B\<close>, \<open>C\<close>, a failing send
  of \<open>A\<close> ends the cycle with the printed error alone. And an item that is no entry of
  the ledger is not sent when its identifier occurs inside a recorded one: \<open>23\<close> is no
  entry of the ledger that holds \<open>1234\<close>, yet it is skipped.
\<close>

theorem failed_send_hides_skip_and_later_items:
  "''B'' \<in> set (ledger_entries (''B'' @ newline))
   \<and> cycle_events plain_render running_bot ''C''
        (send_fails_at 0 [report ''A'', report ''B'', report ''C'']) (disk (''B'' @ newline)) =
       [Console_error ''Detailed error:'' (Some Send_failed)]
   \<and> ''23'' \<notin> set (ledger_entries (''1234'' @ newline))
   \<and> cycle_events plain_render running_bot ''C''
        (all_succeed [report ''23'']) (disk (''1234'' @ newline)) =
       [Console_log ''23 skipping...'']"
  by (simp add: cycle_defs sample_defs ledger_entries_def newline_def)

text \<open>
  C3. When the ledger is empty and a cycle fetches a batch whose identifiers are not
  empty, and every item can be formatted and every send and append succeeds, the cycle's
  events are, for each item in the fetched order, the send of its embed to the channel,
  then the append of its identifier and a line feed to the ledger, then the pause: one
  notification per item, each identifier recorded after its send and before the next
  item. The ledger afterwards is exactly those identifiers, one per line, in that order.
  The identifiers need not be distinct: the ledger is read once, before the loop. When
  the answer is malformed after these items, the printed TypeError follows their events.
\<close>

theorem empty_ledger_batch_is_relayed_in_order:
  assumes "fetch w = Inr nodes"
    and "logFile this = Some p" and "files s p = Some []"
    and "\<forall>n\<in>set nodes. databaseId n \<noteq> []"
    and "\<forall>n\<in>set nodes. \<exists>built. createReportEmbed render n = Inr built"
    and "\<forall>i<length nodes. send_ok w i \<and> append_ok w i"
  shows "cycle_events render this channel w s =
           concat (map (item_events render channel []) nodes)
           @ (if malformed w then [Console_error ''Detailed error:'' (Some Type_error)] else [])
       \<and> (\<forall>n\<in>set nodes. \<exists>built. createReportEmbed render n = Inr built
             \<and> item_events render channel [] n =
                 [Sent channel (databaseId n) built, Appended (databaseId n @ newline),
                  Paused 5000])
       \<and> sent_ids (cycle_events render this channel w s) = map databaseId nodes
       \<and> appended (cycle_events render this channel w s) =
           map (\<lambda>n. databaseId n @ newline) nodes
       \<and> ledger this (checkHacktivityReports render this channel w s) =
           concat (map (\<lambda>n. databaseId n @ newline) nodes)
       \<and> ((\<forall>n\<in>set nodes. CHR 0x0A \<notin> set (databaseId n)) \<longrightarrow>
            ledger_entries (ledger this (checkHacktivityReports render this channel w s)) =
              map databaseId nodes)"
proof -
  have r: "readFile (logFile this) (files s) = Inr []"
    using assms(2,3) by (simp add: readFile_def)
  have novel: "filter (\<lambda>n. \<not> includes_str [] (databaseId n)) nodes = nodes"
    using assms(4) by (simp add: filter_id_conv)
  have fmt: "\<forall>n\<in>set nodes. includes_str [] (databaseId n)
                  \<or> (\<exists>built. createReportEmbed render n = Inr built)"
    using assms(5) by blast
  note c = smooth_cycle [OF assms(1) r assms(6) fmt, of channel]
  have ev: "cycle_events render this channel w s =
           concat (map (item_events render channel []) nodes)
           @ (if malformed w then [Console_error ''Detailed error:'' (Some Type_error)] else [])"
    using c(1) by (simp add: error_log_def ending_def)
  have items: "\<forall>n\<in>set nodes. \<exists>built. createReportEmbed render n = Inr built
             \<and> item_events render channel [] n =
                 [Sent channel (databaseId n) built, Appended (databaseId n @ newline),
                  Paused 5000]"
  proof
    fix n assume n: "n \<in> set nodes"
    with assms(5) obtain built where b: "createReportEmbed render n = Inr built" by blast
    from n assms(4) have "databaseId n \<noteq> []" by blast
    with b have "item_events render channel [] n =
                 [Sent channel (databaseId n) built, Appended (databaseId n @ newline),
                  Paused 5000]"
      by (simp add: item_events_def)
    with b show "\<exists>built. createReportEmbed render n = Inr built
             \<and> item_events render channel [] n =
                 [Sent channel (databaseId n) built, Appended (databaseId n @ newline),
                  Paused 5000]"
      by blast
  qed
  have sent: "sent_ids (cycle_events render this channel w s) = map databaseId nodes"
    using c(2) by (simp only: novel)
  have app: "appended (cycle_events render this channel w s) =
           map (\<lambda>n. databaseId n @ newline) nodes"
    using c(3) by (simp only: novel)
  have led: "ledger this (checkHacktivityReports render this channel w s) =
           concat (map (\<lambda>n. databaseId n @ newline) nodes)"
    using c(4) by (simp only: novel append_Nil)
  have ent: "ledger_entries (ledger this (checkHacktivityReports render this channel w s)) =
              map databaseId nodes"
    if "\<forall>n\<in>set nodes. CHR 0x0A \<notin> set (databaseId n)"
  proof -
    have "concat (map (\<lambda>n. databaseId n @ newline) nodes) =
          concat (map (\<lambda>x. x @ newline) (map databaseId nodes))"
      by (simp add: comp_def)
    moreover have "\<forall>x\<in>set (map databaseId nodes). CHR 0x0A \<notin> set x"
      using that by simp
    ultimately show ?thesis
      using ledger_entries_records [of "map databaseId nodes"] led by simp
  qed
  show ?thesis
    using ev items sent app led ent by blast
qed


theorem empty_ledger_batch_is_relayed_in_order_witness:
  "fetch (all_succeed [report ''A'', report ''B'', report ''C'']) =
     Inr [report ''A'', report ''B'', report ''C'']
   \<and> logFile running_bot = Some ''log.txt''
   \<and> files (disk []) ''log.txt'' = Some []
   \<and> sent_ids (cycle_events plain_render running_bot ''C''
         (all_succeed [report ''A'', report ''B'', report ''C'']) (disk [])) =
       [''A'', ''B'', ''C'']
   \<and> appended (cycle_events plain_render running_bot ''C''
         (all_succeed [report ''A'', report ''B'', report ''C'']) (disk [])) =
       [''A'' @ newline, ''B'' @ newline, ''C'' @ newline]
   \<and> ledger running_bot (checkHacktivityReports plain_render running_bot ''C''
         (all_succeed [report ''A'', report ''B'', report ''C'']) (disk [])) =
       ''A'' @ newline @ ''B'' @ newline @ ''C'' @ newline
   \<and> ledger_entries (ledger running_bot (checkHacktivityReports plain_render running_bot ''C''
         (all_succeed [report ''A'', report ''B'', report ''C'']) (disk []))) =
       [''A'', ''B'', ''C'']"
proof -
  let ?ns = "[report ''A'', report ''B'', report ''C'']"
  let ?w = "all_succeed ?ns"
  have h1: "fetch ?w = Inr ?ns"
    by (simp add: all_succeed_def)
  have h2: "logFile running_bot = Some ''log.txt''"
    by (simp add: running_bot_def)
  have h3: "files (disk []) ''log.txt'' = Some []"
    by (simp add: disk_def)
  have h4: "\<forall>n\<in>set ?ns. databaseId n \<noteq> []"
    by (simp add: report_def)
  have h5: "\<forall>n\<in>set ?ns. \<exists>built. createReportEmbed plain_render n = Inr built"
    by (simp add: report_def formatter_defs)
  have h6: "\<forall>i<length ?ns. send_ok ?w i \<and> append_ok ?w i"
    by (simp add: all_succeed_def)
  have h7: "\<forall>n\<in>set ?ns. CHR 0x0A \<notin> set (databaseId n)"
    by (simp add: report_def)
  note t = empty_ledger_batch_is_relayed_in_order [OF h1 h2 h3 h4 h5 h6, of "''C''"]
  from t have "sent_ids (cycle_events plain_render running_bot ''C'' ?w (disk [])) =
       map databaseId ?ns"
    by blast
  then have a1: "sent_ids (cycle_events plain_render running_bot ''C'' ?w (disk [])) =
       [''A'', ''B'', ''C'']"
    by (simp add: report_def)
  from t have "appended (cycle_events plain_render running_bot ''C'' ?w (disk [])) =
       map (\<lambda>n. databaseId n @ newline) ?ns"
    by blast
  then have a2: "appended (cycle_events plain_render running_bot ''C'' ?w (disk [])) =
       [''A'' @ newline, ''B'' @ newline, ''C'' @ newline]"
    by (simp add: report_def)
  from t have "ledger running_bot (checkHacktivityReports plain_render running_bot ''C'' ?w (disk [])) =
       concat (map (\<lambda>n. databaseId n @ newline) ?ns)"
    by blast
  then have a3: "ledger running_bot (checkHacktivityReports plain_render running_bot ''C'' ?w (disk [])) =
       ''A'' @ newline @ ''B'' @ newline @ ''C'' @ newline"
    by (simp add: report_def)
  from t h7 have "ledger_entries (ledger running_bot
        (checkHacktivityReports plain_render running_bot ''C'' ?w (disk []))) = map databaseId ?ns"
    by blast
  then have a4: "ledger_entries (ledger running_bot
        (checkHacktivityReports plain_render running_bot ''C'' ?w (disk []))) = [''A'', ''B'', ''C'']"
    by (simp add: report_def)
  show ?thesis
    by (intro conjI) (rule h1 h2 h3 a1 a2 a3 a4)+
qed

text \<open>
  Without the condition on the identifiers the statement fails: the empty string is
  included in every text, the empty ledger's too, so an item whose identifier is empty is
  skipped. Here the batch has two items with distinct identifiers and only one is sent.
\<close>

theorem empty_identifier_is_never_sent:
  "readFile (logFile running_bot) (files (disk [])) = Inr []
   \<and> fetch (all_succeed [report ''A'', report []]) = Inr [report ''A'', report []]
   \<and> distinct (map databaseId [report ''A'', report []])
   \<and> sent_ids (cycle_events plain_render running_bot ''C''
        (all_succeed [report ''A'', report []]) (disk [])) = [''A'']
   \<and> ledger running_bot (checkHacktivityReports plain_render running_bot ''C''
        (all_succeed [report ''A'', report []]) (disk [])) = ''A'' @ newline"
  by (simp add: cycle_defs sample_defs ledger_def)

text \<open>
  C5. If an item that the loop reaches (the items before it raise nothing) and does not
  skip has no currency code, or one that is not three ASCII letters, then \<open>formatBounty\<close>
  raises (a TypeError for the missing code, a RangeError for the malformed one) instead
  of defaulting, and the cycle stops there: the error is printed, neither that item nor
  any later one is sent, and the identifiers recorded for the earlier items of the batch
  stay in the ledger. Every code of three ASCII letters, whether or not it names a
  currency, is formatted without an error.
\<close>

theorem bad_currency_aborts_cycle:
  assumes "fetch w = Inr (pre @ n # post)"
    and "readFile (logFile this) (files s) = Inr log"
    and "snd (dispatch render w this channel log 0 pre s) = None"
    and "\<not> includes_str log (databaseId n)"
    and "currency n = Undefined \<or> \<not> well_formed_currency_code (to_string (currency n))"
  shows "formatBounty render (total_awarded_amount n) (currency n) =
           Inl (if currency n = Undefined then Currency_required else Invalid_currency)
       \<and> (\<exists>e. createReportEmbed render n = Inl e
              \<and> checkHacktivityReports render this channel w s =
                  emit (Console_error ''Detailed error:'' (Some e))
                    (fst (dispatch render w this channel log 0 pre s)))
       \<and> sent_ids (cycle_events render this channel w s) =
           map databaseId (filter (\<lambda>m. \<not> includes_str log (databaseId m)) pre)
       \<and> ledger this (checkHacktivityReports render this channel w s) =
           log @ concat (map (\<lambda>m. databaseId m @ newline)
                          (filter (\<lambda>m. \<not> includes_str log (databaseId m)) pre))
       \<and> (\<forall>code amt. well_formed_currency_code code \<longrightarrow>
             formatBounty render amt (Str code) =
               Inr (money_bag @ '' '' @ render (map ascii_upper code) amt))"
proof -
  from createReportEmbed_rejects [OF assms(5) refl, of render]
  obtain e where e: "createReportEmbed render n = Inl e" by blast
  then have stop: "case createReportEmbed render n of
           Inl e' \<Rightarrow> e' = e
         | Inr built \<Rightarrow> \<not> send_ok w (length pre) \<and> e = Send_failed"
    by simp
  note a = aborted_cycle [OF assms(1,2,3,4) stop]
  show ?thesis
    using formatBounty_rejects [OF assms(5)] e a(1,2,4) formatBounty_accepts [of _ render]
    by blast
qed

theorem bad_currency_aborts_cycle_witness:
  "fetch (all_succeed [report ''A'', (report ''B'')\<lparr>currency := Str ''US''\<rparr>, report ''C'']) =
     Inr ([report ''A''] @ (report ''B'')\<lparr>currency := Str ''US''\<rparr> # [report ''C''])
   \<and> formatBounty plain_render 500 (Str ''US'') = Inl Invalid_currency
   \<and> trace (checkHacktivityReports plain_render running_bot ''C''
        (all_succeed [report ''A'', (report ''B'')\<lparr>currency := Str ''US''\<rparr>, report ''C''])
        (disk [])) =
       trace (fst (dispatch plain_render
          (all_succeed [report ''A'', (report ''B'')\<lparr>currency := Str ''US''\<rparr>, report ''C''])
          running_bot ''C'' [] 0 [report ''A''] (disk [])))
       @ [Console_error ''Detailed error:'' (Some Invalid_currency)]
   \<and> sent_ids (cycle_events plain_render running_bot ''C''
        (all_succeed [report ''A'', (report ''B'')\<lparr>currency := Str ''US''\<rparr>, report ''C''])
        (disk [])) = [''A'']
   \<and> ledger running_bot (checkHacktivityReports plain_render running_bot ''C''
        (all_succeed [report ''A'', (report ''B'')\<lparr>currency := Str ''US''\<rparr>, report ''C''])
        (disk [])) = ''A'' @ newline
   \<and> well_formed_currency_code ''QQQ''
   \<and> formatBounty plain_render 7 (Str ''QQQ'') = Inr (money_bag @ '' QQQ'')"
proof -
  let ?b = "(report ''B'')\<lparr>currency := Str ''US''\<rparr>"
  let ?w = "all_succeed [report ''A'', ?b, report ''C'']"
  have h1: "fetch ?w = Inr ([report ''A''] @ ?b # [report ''C''])"
    by (simp add: all_succeed_def)
  have h2: "readFile (logFile running_bot) (files (disk [])) = Inr []"
    by (simp add: readFile_def running_bot_def disk_def)
  have h3: "snd (dispatch plain_render ?w running_bot ''C'' [] 0 [report ''A''] (disk [])) = None"
    by (simp add: cycle_defs sample_defs)
  have h4: "\<not> includes_str [] (databaseId ?b)"
    by (simp add: report_def)
  have h5: "currency ?b = Undefined \<or> \<not> well_formed_currency_code (to_string (currency ?b))"
    by (simp add: report_def well_formed_currency_code_def)
  note t = bad_currency_aborts_cycle [OF h1 h2 h3 h4 h5]
  have cur: "currency ?b = Str ''US''" "total_awarded_amount ?b = 500"
    by (simp_all add: report_def)
  from t have a1: "formatBounty plain_render 500 (Str ''US'') = Inl Invalid_currency"
    by (simp add: cur)
  have e: "createReportEmbed plain_render ?b = Inl Invalid_currency"
    by (simp add: report_def formatter_defs)
  from t e have "checkHacktivityReports plain_render running_bot ''C'' ?w (disk []) =
      emit (Console_error ''Detailed error:'' (Some Invalid_currency))
        (fst (dispatch plain_render ?w running_bot ''C'' [] 0 [report ''A''] (disk [])))"
    by auto
  then have a2: "trace (checkHacktivityReports plain_render running_bot ''C'' ?w (disk [])) =
       trace (fst (dispatch plain_render ?w running_bot ''C'' [] 0 [report ''A''] (disk [])))
       @ [Console_error ''Detailed error:'' (Some Invalid_currency)]"
    by (simp add: emit_def)
  from t have "sent_ids (cycle_events plain_render running_bot ''C'' ?w (disk [])) =
       map databaseId (filter (\<lambda>m. \<not> includes_str [] (databaseId m)) [report ''A''])"
    by blast
  then have a3: "sent_ids (cycle_events plain_render running_bot ''C'' ?w (disk [])) = [''A'']"
    by (simp add: report_def)
  from t have "ledger running_bot (checkHacktivityReports plain_render running_bot ''C'' ?w (disk [])) =
       [] @ concat (map (\<lambda>m. databaseId m @ newline)
                          (filter (\<lambda>m. \<not> includes_str [] (databaseId m)) [report ''A'']))"
    by blast
  then have a4: "ledger running_bot (checkHacktivityReports plain_render running_bot ''C'' ?w (disk [])) =
       ''A'' @ newline"
    by (simp add: report_def)
  have q: "well_formed_currency_code ''QQQ''"
    by (simp add: well_formed_currency_code_def ascii_letter_def)
  from t q have "formatBounty plain_render 7 (Str ''QQQ'') =
      Inr (money_bag @ '' '' @ plain_render (map ascii_upper ''QQQ'') 7)"
    by blast
  then have a5: "formatBounty plain_render 7 (Str ''QQQ'') = Inr (money_bag @ '' QQQ'')"
    by (simp add: plain_render_def ascii_upper_def)
  show ?thesis
    by (intro conjI) (rule h1 a1 a2 a3 a4 q a5)+
qed

text \<open>
  A code that is well formed but names no currency raises nothing: \<open>Intl.NumberFormat\<close>
  accepts \<open>ZZZ\<close> and prints the code in place of a symbol. The item is sent and
  recorded, and so is the item after it.
\<close>

theorem unknown_currency_is_formatted:
  "well_formed_currency_code ''ZZZ''
   \<and> formatBounty plain_render 500 (Str ''ZZZ'') = Inr (money_bag @ '' ZZZ'')
   \<and> sent_ids (cycle_events plain_render running_bot ''C''
        (all_succeed [(report ''A'')\<lparr>currency := Str ''ZZZ''\<rparr>, report ''B'']) (disk [])) =
       [''A'', ''B'']
   \<and> ledger running_bot (checkHacktivityReports plain_render running_bot ''C''
        (all_succeed [(report ''A'')\<lparr>currency := Str ''ZZZ''\<rparr>, report ''B'']) (disk [])) =
       ''A'' @ newline @ ''B'' @ newline"
  by (simp add: cycle_defs sample_defs ledger_def plain_render_def ascii_upper_def)

text \<open>
  C1. If the send fails for an item that the loop reaches and does not skip, the cycle
  stops at that item: the error is printed, the items sent in this cycle are those before
  it, neither its identifier nor that of any later item is appended, and the ledger keeps
  what was recorded for the earlier items. The failed item is sent by a later cycle that
  fetches it again and reaches it, provided its identifier does not occur in the ledger
  text by then and the send succeeds.
\<close>

theorem send_failure_stops_cycle_and_item_is_retried:
  assumes "fetch w = Inr (pre @ n # post)"
    and "readFile (logFile this) (files s) = Inr log"
    and "snd (dispatch render w this channel log 0 pre s) = None"
    and "\<not> includes_str log (databaseId n)"
    and "createReportEmbed render n = Inr built"
    and "\<not> send_ok w (length pre)"
  shows "checkHacktivityReports render this channel w s =
           emit (Console_error ''Detailed error:'' (Some Send_failed))
             (fst (dispatch render w this channel log 0 pre s))
       \<and> sent_ids (cycle_events render this channel w s) =
           map databaseId (filter (\<lambda>m. \<not> includes_str log (databaseId m)) pre)
       \<and> appended (cycle_events render this channel w s) =
           map (\<lambda>m. databaseId m @ newline)
             (filter (\<lambda>m. \<not> includes_str log (databaseId m)) pre)
       \<and> ledger this (checkHacktivityReports render this channel w s) =
           log @ concat (map (\<lambda>m. databaseId m @ newline)
                          (filter (\<lambda>m. \<not> includes_str log (databaseId m)) pre))
       \<and> (fetch w' = Inr (pre' @ n # post')
            \<and> snd (dispatch render w' this channel
                     (ledger this (checkHacktivityReports render this channel w s)) 0 pre'
                     (checkHacktivityReports render this channel w s)) = None
            \<and> \<not> includes_str (ledger this (checkHacktivityReports render this channel w s))
                   (databaseId n)
            \<and> send_ok w' (length pre')
          \<longrightarrow> Sent channel (databaseId n) built
                \<in> set (cycle_events render this channel w'
                         (checkHacktivityReports render this channel w s)))"
proof -
  have stop: "case createReportEmbed render n of
           Inl e' \<Rightarrow> e' = Send_failed
         | Inr built \<Rightarrow> \<not> send_ok w (length pre) \<and> Send_failed = Send_failed"
    using assms(5,6) by simp
  note a = aborted_cycle [OF assms(1,2,3,4) stop]
  let ?s' = "checkHacktivityReports render this channel w s"
  have r: "readFile (logFile this) (files ?s') = Inr (ledger this ?s')"
    by (rule readFile_after_cycle [OF assms(2)])
  have retry: "Sent channel (databaseId n) built
                \<in> set (cycle_events render this channel w' ?s')"
    if "fetch w' = Inr (pre' @ n # post')
            \<and> snd (dispatch render w' this channel (ledger this ?s') 0 pre' ?s') = None
            \<and> \<not> includes_str (ledger this ?s') (databaseId n)
            \<and> send_ok w' (length pre')"
  proof -
    from that have f: "fetch w' = Inr (pre' @ n # post')"
      and d: "snd (dispatch render w' this channel (ledger this ?s') 0 pre' ?s') = None"
      and i: "\<not> includes_str (ledger this ?s') (databaseId n)"
      and o: "send_ok w' (length pre')"
      by blast+
    show ?thesis
      by (rule reached_item_is_sent(1) [OF f r d i assms(5) o])
  qed
  show ?thesis
    using a retry by blast
qed


theorem send_failure_stops_cycle_and_item_is_retried_witness:
  "fetch (send_fails_at 1 [report ''A'', report ''B'', report ''C'']) =
     Inr ([report ''A''] @ report ''B'' # [report ''C''])
   \<and> \<not> send_ok (send_fails_at 1 [report ''A'', report ''B'', report ''C'']) (length [report ''A''])
   \<and> sent_ids (cycle_events plain_render running_bot ''C''
        (send_fails_at 1 [report ''A'', report ''B'', report ''C'']) (disk [])) = [''A'']
   \<and> appended (cycle_events plain_render running_bot ''C''
        (send_fails_at 1 [report ''A'', report ''B'', report ''C'']) (disk [])) = [''A'' @ newline]
   \<and> ledger running_bot (checkHacktivityReports plain_render running_bot ''C''
        (send_fails_at 1 [report ''A'', report ''B'', report ''C'']) (disk [])) = ''A'' @ newline
   \<and> ''B'' \<in> set (sent_ids (cycle_events plain_render running_bot ''C''
        (all_succeed [report ''A'', report ''B'', report ''C''])
        (checkHacktivityReports plain_render running_bot ''C''
          (send_fails_at 1 [report ''A'', report ''B'', report ''C'']) (disk []))))"
proof -
  let ?ns = "[report ''A'', report ''B'', report ''C'']"
  let ?w = "send_fails_at 1 ?ns"
  let ?w' = "all_succeed ?ns"
  let ?s' = "checkHacktivityReports plain_render running_bot ''C'' ?w (disk [])"
  have h1: "fetch ?w = Inr ([report ''A''] @ report ''B'' # [report ''C''])"
    by (simp add: send_fails_at_def)
  have h2: "readFile (logFile running_bot) (files (disk [])) = Inr []"
    by (simp add: readFile_def running_bot_def disk_def)
  have h3: "snd (dispatch plain_render ?w running_bot ''C'' [] 0 [report ''A''] (disk [])) = None"
    by (simp add: cycle_defs sample_defs)
  have h4: "\<not> includes_str [] (databaseId (report ''B''))"
    by (simp add: report_def)
  obtain built where h5: "createReportEmbed plain_render (report ''B'') = Inr built"
    by (simp add: report_def formatter_defs)
  have h6: "\<not> send_ok ?w (length [report ''A''])"
    by (simp add: send_fails_at_def)
  note t = send_failure_stops_cycle_and_item_is_retried [OF h1 h2 h3 h4 h5 h6,
      of ?w' "[report ''A'']" "[report ''C'']"]
  from t have "sent_ids (cycle_events plain_render running_bot ''C'' ?w (disk [])) =
       map databaseId (filter (\<lambda>m. \<not> includes_str [] (databaseId m)) [report ''A''])"
    by blast
  then have a1: "sent_ids (cycle_events plain_render running_bot ''C'' ?w (disk [])) = [''A'']"
    by (simp add: report_def)
  from t have "appended (cycle_events plain_render running_bot ''C'' ?w (disk [])) =
       map (\<lambda>m. databaseId m @ newline)
         (filter (\<lambda>m. \<not> includes_str [] (databaseId m)) [report ''A''])"
    by blast
  then have a2: "appended (cycle_events plain_render running_bot ''C'' ?w (disk [])) =
       [''A'' @ newline]"
    by (simp add: report_def)
  from t have "ledger running_bot ?s' =
       [] @ concat (map (\<lambda>m. databaseId m @ newline)
                          (filter (\<lambda>m. \<not> includes_str [] (databaseId m)) [report ''A'']))"
    by blast
  then have a3: "ledger running_bot ?s' = ''A'' @ newline"
    by (simp add: report_def)
  have r1: "fetch ?w' = Inr ([report ''A''] @ report ''B'' # [report ''C''])"
    by (simp add: all_succeed_def)
  have fs: "files ?s' ''log.txt'' = Some (''A'' @ newline)"
    using a3 readFile_after_cycle [OF h2, of plain_render "''C''" ?w]
    by (simp add: readFile_def running_bot_def split: option.splits)
  have r2: "snd (dispatch plain_render ?w' running_bot ''C'' (ledger running_bot ?s') 0
              [report ''A''] ?s') = None"
    unfolding a3 by (simp add: report_def newline_def Let_def)
  have r3: "\<not> includes_str (ledger running_bot ?s') (databaseId (report ''B''))"
    unfolding a3 by (simp add: report_def newline_def)
  have r4: "send_ok ?w' (length [report ''A''])"
    by (simp add: all_succeed_def)
  from t r1 r2 r3 r4 have "Sent ''C'' (databaseId (report ''B'')) built
      \<in> set (cycle_events plain_render running_bot ''C'' ?w' ?s')"
    by blast
  then have "databaseId (report ''B'') \<in> set (sent_ids (cycle_events plain_render running_bot ''C'' ?w' ?s'))"
    by (rule Sent_sent_ids)
  then have a4: "''B'' \<in> set (sent_ids (cycle_events plain_render running_bot ''C'' ?w' ?s'))"
    by (simp add: report_def)
  show ?thesis
    by (intro conjI) (rule h1 h6 a1 a2 a3 a4)+
qed

text \<open>
  The items after a failed send are not attempted in the same cycle: the \<open>try\<close> is
  around the whole loop. With two items and a failing first send, the cycle's only event
  is the printed error, although the second item would have been sent.
\<close>

theorem send_failure_ends_cycle:
  "fetch (send_fails_at 0 [report ''A'', report ''B'']) = Inr [report ''A'', report ''B'']
   \<and> cycle_events plain_render running_bot ''C''
        (send_fails_at 0 [report ''A'', report ''B'']) (disk []) =
       [Console_error ''Detailed error:'' (Some Send_failed)]
   \<and> sent_ids (cycle_events plain_render running_bot ''C''
        (all_succeed [report ''A'', report ''B'']) (disk [])) = [''A'', ''B'']"
  by (simp add: cycle_defs sample_defs)

text \<open>
  C6. The ledger only grows. After a cycle its text is the text before followed by the
  texts the cycle appended, so nothing recorded is removed or rewritten, and over any
  number of cycles the old text stays a prefix and the number of entries does not
  decrease. When the identifiers of the batch hold no line feed, a cycle adds one entry
  per append. The appends of a cycle are as many as its sends, except when the cycle was
  ended by an append that failed after its send: then the sends are one more.
\<close>

theorem ledger_is_append_only:
  "ledger this (checkHacktivityReports render this channel w s) =
     ledger this s @ concat (appended (cycle_events render this channel w s))
   \<and> prefix (ledger this s)
        (ledger this (fold (checkHacktivityReports render this channel) ticks s))
   \<and> length (ledger_entries (ledger this s)) \<le>
        length (ledger_entries
          (ledger this (fold (checkHacktivityReports render this channel) ticks s)))
   \<and> ((\<forall>nodes. fetch w = Inr nodes \<longrightarrow> (\<forall>n\<in>set nodes. CHR 0x0A \<notin> set (databaseId n)))
        \<longrightarrow> length (ledger_entries (ledger this (checkHacktivityReports render this channel w s))) =
             length (ledger_entries (ledger this s))
             + length (appended (cycle_events render this channel w s)))
   \<and> (length (sent_ids (cycle_events render this channel w s)) =
         length (appended (cycle_events render this channel w s))
       \<or> (length (sent_ids (cycle_events render this channel w s)) =
            Suc (length (appended (cycle_events render this channel w s)))
          \<and> last (cycle_events render this channel w s) =
              Console_error ''Detailed error:'' (Some Append_failed)))"
proof -
  have count: "length (ledger_entries (ledger this (checkHacktivityReports render this channel w s))) =
             length (ledger_entries (ledger this s))
             + length (appended (cycle_events render this channel w s))"
    if nl: "\<forall>nodes. fetch w = Inr nodes \<longrightarrow> (\<forall>n\<in>set nodes. CHR 0x0A \<notin> set (databaseId n))"
  proof -
    have "\<forall>t\<in>set (appended (cycle_events render this channel w s)).
            \<exists>x. t = x @ newline \<and> CHR 0x0A \<notin> set x"
    proof
      fix t assume "t \<in> set (appended (cycle_events render this channel w s))"
      from cycle_appended_records [OF this] obtain nodes n
        where "fetch w = Inr nodes" "n \<in> set nodes" "t = databaseId n @ newline"
        by blast
      with nl show "\<exists>x. t = x @ newline \<and> CHR 0x0A \<notin> set x" by blast
    qed
    from length_entries_records [OF this] show ?thesis
      by (simp add: ledger_after_cycle length_entries_append)
  qed
  show ?thesis
    using ledger_after_cycle [of this render channel w s]
      ledger_across_cycles [of this s render channel ticks]
      entries_mono [OF ledger_across_cycles [of this s render channel ticks]]
      count cycle_counts [of render this channel w s]
    by blast
qed


theorem ledger_is_append_only_witness:
  "ledger running_bot (checkHacktivityReports plain_render running_bot ''C''
      (all_succeed [report ''A'', report ''B'']) (disk (''Z'' @ newline))) =
     ledger running_bot (disk (''Z'' @ newline)) @ ''A'' @ newline @ ''B'' @ newline
   \<and> prefix (ledger running_bot (disk (''Z'' @ newline)))
        (ledger running_bot (fold (checkHacktivityReports plain_render running_bot ''C'')
           [all_succeed [report ''A'', report ''B''], append_fails_at 0 [report ''D'']]
           (disk (''Z'' @ newline))))
   \<and> length (ledger_entries (ledger running_bot (disk (''Z'' @ newline)))) = 1
   \<and> length (ledger_entries (ledger running_bot (checkHacktivityReports plain_render
        running_bot ''C'' (all_succeed [report ''A'', report ''B'']) (disk (''Z'' @ newline))))) = 3
   \<and> length (sent_ids (cycle_events plain_render running_bot ''C''
        (all_succeed [report ''A'', report ''B'']) (disk (''Z'' @ newline)))) = 2"
proof -
  let ?w = "all_succeed [report ''A'', report ''B'']"
  let ?s = "disk (''Z'' @ newline)"
  let ?ticks = "[?w, append_fails_at 0 [report ''D'']]"
  note t = ledger_is_append_only [of running_bot plain_render "''C''" ?w ?s ?ticks]
  have h: "\<forall>nodes. fetch ?w = Inr nodes \<longrightarrow> (\<forall>n\<in>set nodes. CHR 0x0A \<notin> set (databaseId n))"
    by (simp add: all_succeed_def report_def)
  have ap: "appended (cycle_events plain_render running_bot ''C'' ?w ?s) =
      [''A'' @ newline, ''B'' @ newline]"
    by (simp add: cycle_defs sample_defs newline_def)
  have se: "sent_ids (cycle_events plain_render running_bot ''C'' ?w ?s) = [''A'', ''B'']"
    by (simp add: cycle_defs sample_defs newline_def)
  have z: "length (ledger_entries (ledger running_bot ?s)) = 1"
    by (simp add: ledger_def readFile_def running_bot_def disk_def ledger_entries_def newline_def)
  from t have "ledger running_bot (checkHacktivityReports plain_render running_bot ''C'' ?w ?s) =
      ledger running_bot ?s @ concat (appended (cycle_events plain_render running_bot ''C'' ?w ?s))"
    by blast
  then have a1: "ledger running_bot (checkHacktivityReports plain_render running_bot ''C'' ?w ?s) =
     ledger running_bot ?s @ ''A'' @ newline @ ''B'' @ newline"
    by (simp only: ap) simp
  from t have a2: "prefix (ledger running_bot ?s)
        (ledger running_bot (fold (checkHacktivityReports plain_render running_bot ''C'') ?ticks ?s))"
    by blast
  from t h have "length (ledger_entries (ledger running_bot
        (checkHacktivityReports plain_render running_bot ''C'' ?w ?s))) =
      length (ledger_entries (ledger running_bot ?s))
      + length (appended (cycle_events plain_render running_bot ''C'' ?w ?s))"
    by blast
  then have a3: "length (ledger_entries (ledger running_bot
        (checkHacktivityReports plain_render running_bot ''C'' ?w ?s))) = 3"
    by (simp only: ap z) simp
  have a4: "length (sent_ids (cycle_events plain_render running_bot ''C'' ?w ?s)) = 2"
    by (simp only: se) simp
  show ?thesis
    by (intro conjI) (rule a1 a2 z a3 a4)+
qed

text \<open>
  The sends of a cycle can exceed the entries it adds: when \<open>fs.appendFile\<close> fails
  after a successful send, the item was sent and the ledger is unchanged.
\<close>

theorem append_failure_loses_a_sent_item:
  "sent_ids (cycle_events plain_render running_bot ''C''
     (append_fails_at 0 [report ''A'']) (disk [])) = [''A'']
   \<and> ledger running_bot (disk []) = []
   \<and> ledger running_bot (checkHacktivityReports plain_render running_bot ''C''
        (append_fails_at 0 [report ''A'']) (disk [])) = []"
  by (simp add: cycle_defs sample_defs ledger_def)

text \<open>
  C7. A severity name that is none of the five in the tables is meant to give the dash
  and the colour 0. It does, by lemma \<open>severity_fallback\<close>, unless the name is a member
  of \<open>Object.prototype\<close>: for \<open>constructor\<close> the property read finds the inherited
  member, which is truthy, so \<open>getSeverityIcon\<close> and \<open>getSeverityColor\<close> return it
  instead of the fallback, and \<open>setColor\<close> then throws while the embed is built. An
  ordinary unknown name such as \<open>Unknown\<close> gives the fallback.
\<close>

theorem inherited_severity_name_is_not_fallback:
  "to_string (Str ''constructor'') \<notin> set (map fst icons)
   \<and> getSeverityIcon (Str ''constructor'') = Builtin ''constructor''
   \<and> getSeverityColor (Str ''constructor'') = Builtin ''constructor''
   \<and> createReportEmbed plain_render ((report ''A'')\<lparr>severity_rating := Str ''constructor''\<rparr>) =
       Inl Color_convert
   \<and> getSeverityIcon (Str ''Unknown'') = Val ''-''
   \<and> getSeverityColor (Str ''Unknown'') = Val 0"
  by (simp add: formatter_defs report_def)

text \<open>
  C2. Start-up is meant to create the ledger only when it is absent. The constructor
  calls \<open>initializeFiles\<close> before it assigns \<open>this.logFile\<close>, so the first
  \<open>fs.access\<close> is given \<open>undefined\<close> and rejects whether or not \<open>log.txt\<close> exists;
  the \<open>catch\<close> runs after the assignment and writes the empty string to \<open>log.txt\<close>. A
  ledger that held \<open>4242\<close> is empty after start-up, although \<open>fs.access\<close> on its path
  would have succeeded.
\<close>

theorem startup_empties_existing_ledger:
  "constructor (disk (''4242'' @ newline)) =
     (running_bot,
      Inr (emit (Console_log
             ''Channel file not found. Please use .setup command to set monitoring channel'')
            (emit (Console_log ''Log file created'') (disk []))))
   \<and> ledger running_bot (disk (''4242'' @ newline)) = ''4242'' @ newline
   \<and> initializeFiles_called \<lparr>logFile = None, channelFile = None\<rparr> = None
   \<and> access None (files (disk (''4242'' @ newline))) = Inl Invalid_path
   \<and> access (Some ''log.txt'') (files (disk (''4242'' @ newline))) = Inr ()"
  by (simp add: constructor_def Let_def initializeFiles_called_def initializeFiles_resumed_def
        access_def writeFile_def emit_def disk_def running_bot_def ledger_def readFile_def)

end
